theory Spec2Isabelle
  imports Main
begin

section \<open>Strings\<close>

text \<open>
  A Python \<open>str\<close> is the list of its code points. The literals of the source are
  ASCII, except the three headings of the notes, and are written \<open>u ''...''\<close>.
\<close>

type_synonym pystr = "nat list"

definition cp :: "char \<Rightarrow> nat" where
  "cp c = of_char c"

definition u :: "string \<Rightarrow> pystr" where
  "u s = map cp s"

text \<open>
  \<open>s.lower()\<close>: the letters \<open>A\<close> to \<open>Z\<close> are lowered. The characters above ASCII are
  left as they are: the lower case of none of them is a character of \<open>sc-\<close>, a digit, or
  a letter of \<open>feature\<close>, \<open>bug\<close> or \<open>chore\<close>.
\<close>

definition lower_chr :: "nat \<Rightarrow> nat" where
  "lower_chr c = (if 65 \<le> c \<and> c \<le> 90 then c + 32 else c)"

definition lower_str :: "pystr \<Rightarrow> pystr" where
  "lower_str s = map lower_chr s"

text \<open>
  The Unicode database of the Python that runs the script is not part of the repository.
  Which characters above ASCII are decimal digits (the category \<open>Nd\<close>), and the value of
  each, is a parameter of the model: \<open>nd c\<close> is the value of the digit \<open>c\<close>, and \<open>None\<close> for a
  character that is no decimal digit.
\<close>

type_synonym decimals = "nat \<Rightarrow> nat option"

text \<open>The class \<open>[0-9]\<close>\<close>

definition ascii_digit :: "nat \<Rightarrow> bool" where
  "ascii_digit c = (48 \<le> c \<and> c \<le> 57)"

text \<open>The class \<open>\d\<close> of a pattern on \<open>str\<close>: every decimal digit of Unicode.\<close>

definition is_digit :: "decimals \<Rightarrow> nat \<Rightarrow> bool" where
  "is_digit nd c = (if c < 128 then ascii_digit c else (case nd c of None \<Rightarrow> False | Some v \<Rightarrow> True))"

text \<open>The value that \<open>int\<close> gives a decimal digit.\<close>

definition digit_val :: "decimals \<Rightarrow> nat \<Rightarrow> nat" where
  "digit_val nd c = (if c < 128 then c - 48 else (case nd c of None \<Rightarrow> 0 | Some v \<Rightarrow> v))"

text \<open>
  The white space that \<open>str.strip\<close> removes: the characters of ASCII from tab to
  carriage return and from \<open>0x1C\<close> to the space, and the white space of Unicode above it.
\<close>

definition is_space :: "nat \<Rightarrow> bool" where
  "is_space c =
     (c \<in> set [0x09, 0x0A, 0x0B, 0x0C, 0x0D, 0x1C, 0x1D, 0x1E, 0x1F, 0x20, 0x85, 0xA0,
                0x1680, 0x2000, 0x2001, 0x2002, 0x2003, 0x2004, 0x2005, 0x2006, 0x2007,
                0x2008, 0x2009, 0x200A, 0x2028, 0x2029, 0x202F, 0x205F, 0x3000])"

text \<open>\<open>s.strip()\<close>\<close>

definition strip :: "pystr \<Rightarrow> pystr" where
  "strip s = rev (dropWhile is_space (rev (dropWhile is_space s)))"

text \<open>\<open>s.split(sep)\<close> for a separator of one character: the result is never empty.\<close>

fun split :: "nat \<Rightarrow> pystr \<Rightarrow> pystr list" where
  "split sep [] = [[]]"
| "split sep (c # cs) =
     (if c = sep then [] # split sep cs
      else (case split sep cs of
              [] \<Rightarrow> [[c]]
            | l # ls \<Rightarrow> (c # l) # ls))"

text \<open>\<open>sep.join(xs)\<close>\<close>

fun join :: "pystr \<Rightarrow> pystr list \<Rightarrow> pystr" where
  "join sep [] = []"
| "join sep [x] = x"
| "join sep (x # y # ys) = x @ sep @ join sep (y # ys)"

text \<open>\<open>s.lstrip('v')\<close>\<close>

definition lstrip_v :: "pystr \<Rightarrow> pystr" where
  "lstrip_v s = dropWhile (\<lambda>c. c = cp CHR ''v'') s"

text \<open>\<open>s.replace('sc-', '')\<close>: the occurrences are removed from left to right.\<close>

fun replace_sc :: "pystr \<Rightarrow> pystr" where
  "replace_sc [] = []"
| "replace_sc (c # cs) =
     (if c = cp CHR ''s'' \<and> take 2 cs = u ''c-'' then replace_sc (drop 2 cs)
      else c # replace_sc cs)"

text \<open>\<open>'%d' % n\<close> for a number that is not negative, and \<open>int(s)\<close> for a run of decimal
  digits.\<close>

definition digit_chr :: "nat \<Rightarrow> nat" where
  "digit_chr d = 48 + d"

function str_nat :: "nat \<Rightarrow> pystr" where
  "str_nat n = (if n < 10 then [digit_chr n] else str_nat (n div 10) @ [digit_chr (n mod 10)])"
  by pat_completeness auto
termination
  by (relation "measure id") simp_all

definition int_of_digits :: "decimals \<Rightarrow> pystr \<Rightarrow> nat" where
  "int_of_digits nd s = foldl (\<lambda>n c. 10 * n + digit_val nd c) 0 s"

section \<open>Errors and the log\<close>

datatype py_error = KeyError pystr | AttributeError | ValueError | OSError

text \<open>
  A Python value that is read as text: a \<open>str\<close>, or a value of another type, kept as
  the text \<open>str()\<close> gives for it (\<open>NonStr (u ''None'')\<close> is \<open>None\<close>). Formatting
  either one in an f-string gives its text; \<open>.lower()\<close> exists on a \<open>str\<close> only.
\<close>

datatype pyval = Str pystr | NonStr pystr

fun format_value :: "pyval \<Rightarrow> pystr" where
  "format_value (Str s) = s"
| "format_value (NonStr t) = t"

text \<open>A story as it sits in a bucket, and the dictionary of the three buckets.\<close>

type_synonym entry = "pystr \<rightharpoonup> pyval"

type_synonym categories = "pystr \<rightharpoonup> entry list"

datatype levelname = INFO | WARNING | ERROR

text \<open>One constructor for each call of \<open>logger\<close>, with the values its message shows.\<close>

datatype log_record =
    Token_not_set
  | Running_command "pystr list"
  | Found_commits nat pystr pystr
  | Error_getting_commits int
  | Fetching_story_details pystr
  | Error_fetching_story pystr
  | Found_existing_version_tag pystr
  | Error_checking_current_tags int
  | Using_previous_version pystr
  | Invalid_version_format pystr
  | Commit_messages "pystr list"
  | Found_story_IDs "pystr list"
  | No_story_IDs_found
  | Categorized_stories categories
  | Reusing_existing_tag pystr
  | New_version pystr pystr
  | Generated_release_notes pystr
  | Error_in_main py_error

fun level :: "log_record \<Rightarrow> levelname" where
  "level Token_not_set = ERROR"
| "level (Error_getting_commits _) = ERROR"
| "level (Error_fetching_story _) = ERROR"
| "level (Error_checking_current_tags _) = ERROR"
| "level (Invalid_version_format _) = ERROR"
| "level (Error_in_main _) = ERROR"
| "level No_story_IDs_found = WARNING"
| "level _ = INFO"

section \<open>The collaborators\<close>

text \<open>
  What \<open>subprocess.run(cmd, capture_output=True, text=True, check=True)\<close> meets: the
  process ran and exited with a return code and its standard output, or it could not
  be started (\<open>OSError\<close>, as when there is no \<open>git\<close>). With \<open>check=True\<close> a return code
  other than 0 raises \<open>CalledProcessError\<close>.
\<close>

datatype completed = Exited int pystr | Raised_OSError

text \<open>
  What \<open>requests.get\<close> followed by \<open>response.json()\<close> meets: an exception of the
  class \<open>RequestException\<close> (no connection, a timeout, a body that is not JSON), or a
  response with its status code and decoded body, a dictionary or another JSON value.
  \<open>raise_for_status\<close> raises \<open>HTTPError\<close>, a \<open>RequestException\<close>, for the status codes
  from 400 to 599.
\<close>

datatype story = Dict "pystr \<rightharpoonup> pyval" | NonDict

datatype http_outcome = RequestException | Response nat story

text \<open>What a run meets: the environment variable, \<open>git\<close>, the ticket API, and the decimal
  digits of the Unicode database.\<close>

record world =
  SHORTCUT_API_TOKEN :: "pystr option"
  git :: "pystr list \<Rightarrow> completed"
  requests_get :: "pystr \<Rightarrow> http_outcome"
  unicode_decimal :: decimals

section \<open>Regular expressions\<close>

text \<open>A run of one character or more of a class at the start of \<open>s\<close>, as long as it
  goes: the run and what follows it.\<close>

definition run1 :: "(nat \<Rightarrow> bool) \<Rightarrow> pystr \<Rightarrow> (pystr \<times> pystr) option" where
  "run1 cls s =
     (if takeWhile cls s = [] then None
      else Some (takeWhile cls s, dropWhile cls s))"

text \<open>One given character at the start of \<open>s\<close>: what follows it.\<close>

fun literal :: "nat \<Rightarrow> pystr \<Rightarrow> pystr option" where
  "literal ch [] = None"
| "literal ch (c # cs) = (if c = ch then Some cs else None)"

text \<open>\<open>$\<close>: the end of the string, or the line feed that ends it.\<close>

definition at_end :: "pystr \<Rightarrow> bool" where
  "at_end s = (s = [] \<or> s = [0x0A])"

text \<open>Three runs of a class of digits with a dot between them, at the start of \<open>s\<close>:
  the three runs and what follows.\<close>

definition three_numbers ::
  "(nat \<Rightarrow> bool) \<Rightarrow> pystr \<Rightarrow> (pystr \<times> pystr \<times> pystr \<times> pystr) option" where
  "three_numbers cls s =
     (case run1 cls s of
        None \<Rightarrow> None
      | Some (a, r1) \<Rightarrow>
          (case literal (cp CHR ''.'') r1 of
             None \<Rightarrow> None
           | Some r2 \<Rightarrow>
               (case run1 cls r2 of
                  None \<Rightarrow> None
                | Some (b, r3) \<Rightarrow>
                    (case literal (cp CHR ''.'') r3 of
                       None \<Rightarrow> None
                     | Some r4 \<Rightarrow>
                         (case run1 cls r4 of
                            None \<Rightarrow> None
                          | Some (c, r5) \<Rightarrow> Some (a, b, c, r5))))))"

text \<open>\<open>re.match(r'^v[0-9]+\.[0-9]+\.[0-9]+$', tag)\<close>\<close>

definition is_version_tag :: "pystr \<Rightarrow> bool" where
  "is_version_tag tag =
     (case literal (cp CHR ''v'') tag of
        None \<Rightarrow> False
      | Some r \<Rightarrow>
          (case three_numbers ascii_digit r of
             None \<Rightarrow> False
           | Some (a, b, c, rest) \<Rightarrow> at_end rest))"

text \<open>
  \<open>re.finditer(r'sc-(\d+)', s)\<close>, as the list of what group 1 holds in each match:
  the matches are searched from left to right, and the search goes on where a match ends.
\<close>

function finditer_sc :: "decimals \<Rightarrow> pystr \<Rightarrow> pystr list" where
  "finditer_sc nd [] = []"
| "finditer_sc nd (c # cs) =
     (if c = cp CHR ''s'' \<and> take 2 cs = u ''c-''
         \<and> takeWhile (is_digit nd) (drop 2 cs) \<noteq> []
      then takeWhile (is_digit nd) (drop 2 cs)
           # finditer_sc nd (dropWhile (is_digit nd) (drop 2 cs))
      else finditer_sc nd cs)"
  by pat_completeness auto
termination
proof (relation "measure (\<lambda>(nd, s). length s)")
  fix nd :: decimals and c :: nat and cs :: pystr
  have "length (dropWhile (is_digit nd) (drop 2 cs)) \<le> length (drop 2 cs)"
    by (rule length_dropWhile_le)
  then show "((nd, dropWhile (is_digit nd) (drop 2 cs)), (nd, c # cs))
      \<in> measure (\<lambda>(nd, s). length s)"
    by simp
qed simp_all

section \<open>The version of the \<open>semantic_version\<close> library\<close>

text \<open>
  \<open>Version\<close> of the library \<open>semantic_version\<close>, which the script imports: the three
  numbers, and the identifiers of a pre-release and of a build.
\<close>

record version =
  major :: nat
  minor :: nat
  patch :: nat
  prerelease :: "pystr list"
  build :: "pystr list"

text \<open>The class \<open>[0-9a-zA-Z.-]\<close>\<close>

definition is_identifier_chr :: "nat \<Rightarrow> bool" where
  "is_identifier_chr c =
     (c \<in> set (u ''0123456789abcdefghijklmnopqrstuvwxyzABCDEFGHIJKLMNOPQRSTUVWXYZ.-''))"

text \<open>\<open>(?:-([0-9a-zA-Z.-]+))?\<close> and its twin with \<open>+\<close>: the group, when the
  mark and a run of the class stand at the start of \<open>s\<close>, and what follows.\<close>

fun optional_group :: "nat \<Rightarrow> pystr \<Rightarrow> pystr option \<times> pystr" where
  "optional_group mark [] = (None, [])"
| "optional_group mark (c # cs) =
     (if c = mark \<and> takeWhile is_identifier_chr cs \<noteq> []
      then (Some (takeWhile is_identifier_chr cs), dropWhile is_identifier_chr cs)
      else (None, c # cs))"

text \<open>
  \<open>_has_leading_zero(value)\<close>: \<open>value and value[0] == '0' and value.isdigit() and
  value != '0'\<close>. \<open>isdigit\<close> is asked of a run of \<open>\d\<close> and of an identifier of the ASCII
  class only, where it holds exactly when every character is a decimal digit.
\<close>

definition has_leading_zero :: "decimals \<Rightarrow> pystr \<Rightarrow> bool" where
  "has_leading_zero nd v_value =
     (v_value \<noteq> [] \<and> hd v_value = cp CHR ''0'' \<and> list_all (is_digit nd) v_value
      \<and> v_value \<noteq> u ''0'')"

definition validate_identifiers :: "decimals \<Rightarrow> pystr list \<Rightarrow> bool \<Rightarrow> bool" where
  "validate_identifiers nd identifiers allow_leading_zeroes =
     list_all (\<lambda>item. item \<noteq> [] \<and> (allow_leading_zeroes \<or> \<not> has_leading_zero nd item))
              identifiers"

text \<open>
  \<open>Version(version_string)\<close>: the string is matched against
  \<open>^(\d+)\.(\d+)\.(\d+)(?:-([0-9a-zA-Z.-]+))?(?:\+([0-9a-zA-Z.-]+))?$\<close>; a number with
  a leading zero, an empty identifier and a numeric pre-release identifier with a
  leading zero raise \<open>ValueError\<close>, as a string that does not match does.
\<close>

definition Version :: "decimals \<Rightarrow> pystr \<Rightarrow> py_error + version" where
  "Version nd version_string =
     (case three_numbers (is_digit nd) version_string of
        None \<Rightarrow> Inl ValueError
      | Some (a, b, c, r) \<Rightarrow>
          (case optional_group (cp CHR ''-'') r of
             (pre, r1) \<Rightarrow>
               (case optional_group (cp CHR ''+'') r1 of
                  (bld, r2) \<Rightarrow>
                    if \<not> at_end r2 then Inl ValueError
                    else if has_leading_zero nd a \<or> has_leading_zero nd b
                            \<or> has_leading_zero nd c
                    then Inl ValueError
                    else
                      (let pre_ids = (case pre of None \<Rightarrow> []
                                      | Some t \<Rightarrow> split (cp CHR ''.'') t);
                           bld_ids = (case bld of None \<Rightarrow> []
                                      | Some t \<Rightarrow> split (cp CHR ''.'') t)
                       in if \<not> validate_identifiers nd pre_ids False then Inl ValueError
                          else if \<not> validate_identifiers nd bld_ids True then Inl ValueError
                          else Inr \<lparr>major = int_of_digits nd a, minor = int_of_digits nd b,
                                   patch = int_of_digits nd c, prerelease = pre_ids,
                                   build = bld_ids\<rparr>))))"

text \<open>\<open>str(version)\<close>\<close>

definition str_version :: "version \<Rightarrow> pystr" where
  "str_version v =
     str_nat (major v) @ u ''.'' @ str_nat (minor v) @ u ''.'' @ str_nat (patch v)
     @ (if prerelease v \<noteq> [] then u ''-'' @ join (u ''.'') (prerelease v) else [])
     @ (if build v \<noteq> [] then u ''+'' @ join (u ''.'') (build v) else [])"

definition next_major :: "version \<Rightarrow> version" where
  "next_major v =
     (if prerelease v \<noteq> [] \<and> minor v = 0 \<and> patch v = 0
      then \<lparr>major = major v, minor = 0, patch = 0, prerelease = [], build = []\<rparr>
      else \<lparr>major = major v + 1, minor = 0, patch = 0, prerelease = [], build = []\<rparr>)"

definition next_minor :: "version \<Rightarrow> version" where
  "next_minor v =
     (if prerelease v \<noteq> [] \<and> patch v = 0
      then \<lparr>major = major v, minor = minor v, patch = 0, prerelease = [], build = []\<rparr>
      else \<lparr>major = major v, minor = minor v + 1, patch = 0, prerelease = [], build = []\<rparr>)"

definition next_patch :: "version \<Rightarrow> version" where
  "next_patch v =
     (if prerelease v \<noteq> []
      then \<lparr>major = major v, minor = minor v, patch = patch v, prerelease = [], build = []\<rparr>
      else \<lparr>major = major v, minor = minor v, patch = patch v + 1, prerelease = [],
            build = []\<rparr>)"

text \<open>\<open>getattr(prev_version, f"next_{bump_type}")()\<close>\<close>

definition getattr_next :: "version \<Rightarrow> pystr \<Rightarrow> py_error + version" where
  "getattr_next v bump_type =
     (if bump_type = u ''major'' then Inr (next_major v)
      else if bump_type = u ''minor'' then Inr (next_minor v)
      else if bump_type = u ''patch'' then Inr (next_patch v)
      else Inl AttributeError)"

section \<open>\<open>ReleaseHandler\<close>\<close>

text \<open>The truth value of \<open>repo_path\<close>: \<open>None\<close> and the empty string are false.\<close>

fun truthy :: "pystr option \<Rightarrow> bool" where
  "truthy None = False"
| "truthy (Some s) = (s \<noteq> [])"

definition git_log_cmd :: "pystr \<Rightarrow> pystr \<Rightarrow> pystr option \<Rightarrow> pystr list" where
  "git_log_cmd base head repo_path =
     (if truthy repo_path
      then [u ''git'', u ''-C'', the repo_path, u ''log'', base @ u ''..'' @ head,
            u ''--format=%s'']
      else [u ''git'', u ''log'', base @ u ''..'' @ head, u ''--format=%s''])"

text \<open>
  \<open>get_commits_between_releases\<close>: the log it writes, and the list it returns or the
  exception that leaves it. \<open>CalledProcessError\<close> is the one exception it catches.
\<close>

definition get_commits_between_releases ::
  "(pystr list \<Rightarrow> completed) \<Rightarrow> pystr \<Rightarrow> pystr \<Rightarrow> pystr option
     \<Rightarrow> log_record list \<times> (py_error + pystr list)" where
  "get_commits_between_releases run base head repo_path =
     (let cmd = git_log_cmd base head repo_path in
      case run cmd of
        Raised_OSError \<Rightarrow> ([Running_command cmd], Inl OSError)
      | Exited returncode stdout \<Rightarrow>
          if returncode \<noteq> 0
          then ([Running_command cmd, Error_getting_commits returncode], Inr [])
          else
            (let commits = split 0x0A (strip stdout) in
             ([Running_command cmd, Found_commits (length commits) base head], Inr commits)))"

text \<open>\<open>list(set(story_ids))\<close>: Python fixes no order for it; the model keeps each id
  at its last place in the list.\<close>

definition extract_story_ids :: "decimals \<Rightarrow> pystr list \<Rightarrow> pystr list" where
  "extract_story_ids nd commit_messages =
     remdups (concat (map (\<lambda>message. map (\<lambda>g. u ''SC-'' @ g)
                                         (finditer_sc nd (lower_str message)))
                          commit_messages))"

definition shortcut_api_url :: pystr where
  "shortcut_api_url = u ''https://api.app.shortcut.com/api/v3''"

text \<open>\<open>get_story_details\<close>: every \<open>RequestException\<close> is caught, logged and answered
  by the empty dictionary.\<close>

definition get_story_details ::
  "(pystr \<Rightarrow> http_outcome) \<Rightarrow> pystr \<Rightarrow> log_record list \<times> story" where
  "get_story_details get story_id =
     (let numeric_id = replace_sc (lower_str story_id) in
      case get (shortcut_api_url @ u ''/stories/'' @ numeric_id) of
        RequestException \<Rightarrow>
          ([Fetching_story_details story_id, Error_fetching_story story_id], Dict Map.empty)
      | Response status_code body \<Rightarrow>
          if 400 \<le> status_code \<and> status_code < 600
          then ([Fetching_story_details story_id, Error_fetching_story story_id], Dict Map.empty)
          else ([Fetching_story_details story_id], body))"

text \<open>\<open>story.get(key, fallback)\<close>\<close>

definition dict_get :: "(pystr \<rightharpoonup> pyval) \<Rightarrow> pystr \<Rightarrow> pyval \<Rightarrow> pyval" where
  "dict_get d key fallback = (case d key of None \<Rightarrow> fallback | Some v \<Rightarrow> v)"

text \<open>
  The loop of \<open>categorize_stories\<close>, with the dictionary \<open>categories\<close> as its state.
  \<open>story.get\<close> on a value that is no dictionary and \<open>.lower()\<close> on a value that is no
  \<open>str\<close> raise \<open>AttributeError\<close>.
\<close>

fun categorize_loop ::
  "(pystr \<Rightarrow> http_outcome) \<Rightarrow> pystr list \<Rightarrow> categories
     \<Rightarrow> log_record list \<times> (py_error + categories)" where
  "categorize_loop get [] categories = ([], Inr categories)"
| "categorize_loop get (story_id # rest) categories =
     (case get_story_details get story_id of
        (l1, NonDict) \<Rightarrow> (l1, Inl AttributeError)
      | (l1, Dict d) \<Rightarrow>
          (case dict_get d (u ''story_type'') (Str []) of
             NonStr t \<Rightarrow> (l1, Inl AttributeError)
           | Str t \<Rightarrow>
               (let story_type = lower_str t;
                    categories' =
                      (case categories story_type of
                         None \<Rightarrow> categories
                       | Some bucket \<Rightarrow>
                           categories(story_type \<mapsto> bucket @
                             [[u ''id'' \<mapsto> Str story_id,
                               u ''name'' \<mapsto> dict_get d (u ''name'') (Str []),
                               u ''description'' \<mapsto> dict_get d (u ''description'') (Str [])]]))
                in case categorize_loop get rest categories' of
                     (l2, r) \<Rightarrow> (l1 @ l2, r))))"

definition categorize_stories ::
  "(pystr \<Rightarrow> http_outcome) \<Rightarrow> pystr list \<Rightarrow> log_record list \<times> (py_error + categories)" where
  "categorize_stories get story_ids =
     categorize_loop get story_ids [u ''feature'' \<mapsto> [], u ''bug'' \<mapsto> [], u ''chore'' \<mapsto> []]"

text \<open>\<open>determine_version_bump\<close>: \<open>categories[key]\<close> raises \<open>KeyError\<close> for a key that
  is not there.\<close>

definition determine_version_bump :: "categories \<Rightarrow> py_error + pystr" where
  "determine_version_bump categories =
     (case categories (u ''feature'') of
        None \<Rightarrow> Inl (KeyError (u ''feature''))
      | Some feature \<Rightarrow>
          if feature \<noteq> [] then Inr (u ''minor'')
          else
            (case categories (u ''bug'') of
               None \<Rightarrow> Inl (KeyError (u ''bug''))
             | Some bug \<Rightarrow> if bug \<noteq> [] then Inr (u ''patch'') else Inr (u ''patch'')))"

text \<open>The three heading literals, character for character as the source file has them;
  the second and the third begin with a line feed.\<close>

definition heading_features :: pystr where
  "heading_features = u ''## '' @ [0xF0, 0x178, 0x161, 0x20AC] @ u '' Features''"

definition heading_bug_fixes :: pystr where
  "heading_bug_fixes = [0x0A] @ u ''## '' @ [0xF0, 0x178, 0x203A] @ u '' Bug Fixes''"

definition heading_chores :: pystr where
  "heading_chores = [0x0A] @ u ''## '' @ [0xF0, 0x178, 0x201D, 0xA7] @ u '' Chores''"

text \<open>The line appended for one story. \<open>story['name']\<close> is read first, then, with
  links, \<open>story['id'].lower()\<close>.\<close>

definition bullet :: "bool \<Rightarrow> entry \<Rightarrow> py_error + pystr" where
  "bullet include_story_links story =
     (if include_story_links
      then
        (case story (u ''name'') of
           None \<Rightarrow> Inl (KeyError (u ''name''))
         | Some name \<Rightarrow>
             (case story (u ''id'') of
                None \<Rightarrow> Inl (KeyError (u ''id''))
              | Some (NonStr t) \<Rightarrow> Inl AttributeError
              | Some (Str i) \<Rightarrow>
                  Inr (u ''- ['' @ format_value name @ u ''](https://app.shortcut.com/story/''
                       @ lower_str i @ u '')'')))
      else
        (case story (u ''name'') of
           None \<Rightarrow> Inl (KeyError (u ''name''))
         | Some name \<Rightarrow> Inr (u ''- '' @ format_value name)))"

text \<open>The loop \<open>for story in categories[key]\<close>, with the list \<open>notes\<close> as its state.\<close>

fun append_bullets :: "bool \<Rightarrow> entry list \<Rightarrow> pystr list \<Rightarrow> py_error + pystr list" where
  "append_bullets include_story_links [] notes = Inr notes"
| "append_bullets include_story_links (story # rest) notes =
     (case bullet include_story_links story of
        Inl e \<Rightarrow> Inl e
      | Inr line \<Rightarrow> append_bullets include_story_links rest (notes @ [line]))"

text \<open>One of the three blocks \<open>if categories[key]: notes.append(heading); for ...\<close>\<close>

definition section_block ::
  "categories \<Rightarrow> pystr \<Rightarrow> pystr \<Rightarrow> bool \<Rightarrow> pystr list \<Rightarrow> py_error + pystr list" where
  "section_block categories key heading include_story_links notes =
     (case categories key of
        None \<Rightarrow> Inl (KeyError key)
      | Some bucket \<Rightarrow>
          if bucket \<noteq> [] then append_bullets include_story_links bucket (notes @ [heading])
          else Inr notes)"

definition generate_release_notes :: "categories \<Rightarrow> bool \<Rightarrow> py_error + pystr" where
  "generate_release_notes categories include_story_links =
     (case section_block categories (u ''feature'') heading_features include_story_links [] of
        Inl e \<Rightarrow> Inl e
      | Inr notes1 \<Rightarrow>
          (case section_block categories (u ''bug'') heading_bug_fixes include_story_links
                  notes1 of
             Inl e \<Rightarrow> Inl e
           | Inr notes2 \<Rightarrow>
               (case section_block categories (u ''chore'') heading_chores include_story_links
                       notes2 of
                  Inl e \<Rightarrow> Inl e
                | Inr notes3 \<Rightarrow> Inr (join [0x0A] notes3))))"

definition git_tag_cmd :: "pystr option \<Rightarrow> pystr list" where
  "git_tag_cmd repo_path =
     (if truthy repo_path
      then [u ''git'', u ''-C'', the repo_path, u ''tag'', u ''--points-at'', u ''HEAD'']
      else [u ''git'', u ''tag'', u ''--points-at'', u ''HEAD''])"

definition get_current_tag ::
  "(pystr list \<Rightarrow> completed) \<Rightarrow> pystr option
     \<Rightarrow> log_record list \<times> (py_error + pystr option)" where
  "get_current_tag run repo_path =
     (let cmd = git_tag_cmd repo_path in
      case run cmd of
        Raised_OSError \<Rightarrow> ([Running_command cmd], Inl OSError)
      | Exited returncode stdout \<Rightarrow>
          if returncode \<noteq> 0
          then ([Running_command cmd, Error_checking_current_tags returncode], Inr None)
          else
            (let tags = split 0x0A (strip stdout);
                 version_tags = filter is_version_tag tags
             in case version_tags of
                  [] \<Rightarrow> ([Running_command cmd], Inr None)
                | t # ts \<Rightarrow>
                    ([Running_command cmd, Found_existing_version_tag t], Inr (Some t))))"

section \<open>\<open>main\<close>\<close>

record args =
  prev_version :: pystr
  repo_path :: "pystr option"
  include_story_links :: bool

text \<open>The object that \<open>main\<close> prints as JSON.\<close>

record release_output =
  tag :: pystr
  release_notes :: pystr

text \<open>How a run ends: the object is printed and the exit status is 0, or \<open>sys.exit(1)\<close>.\<close>

datatype process_end = Printed release_output | Exit nat

text \<open>
  The choice of the new version in \<open>main\<close>: \<open>if current_tag: ... else: ...\<close>, with
  the previous version, the categories and the tag found at the current commit.
\<close>

definition resolve_version ::
  "decimals \<Rightarrow> version \<Rightarrow> categories \<Rightarrow> pystr option
     \<Rightarrow> log_record list \<times> (py_error + version)" where
  "resolve_version nd previous categories current_tag =
     (if truthy current_tag
      then
        (case Version nd (lstrip_v (the current_tag)) of
           Inl e \<Rightarrow> ([Reusing_existing_tag (the current_tag)], Inl e)
         | Inr new_version \<Rightarrow> ([Reusing_existing_tag (the current_tag)], Inr new_version))
      else
        (case determine_version_bump categories of
           Inl e \<Rightarrow> ([], Inl e)
         | Inr bump_type \<Rightarrow>
             (case getattr_next previous bump_type of
                Inl e \<Rightarrow> ([], Inl e)
              | Inr new_version \<Rightarrow>
                  ([New_version (str_version new_version) bump_type], Inr new_version))))"

text \<open>The body of the outer \<open>try\<close> of \<open>main\<close>, from the fetch of the commits on.\<close>

definition pipeline ::
  "world \<Rightarrow> args \<Rightarrow> version \<Rightarrow> log_record list \<times> (py_error + release_output)" where
  "pipeline w a previous =
     (case get_commits_between_releases (git w) (prev_version a) (u ''HEAD'') (repo_path a) of
        (l1, Inl e) \<Rightarrow> (l1, Inl e)
      | (l1, Inr commit_messages) \<Rightarrow>
          (let story_ids = extract_story_ids (unicode_decimal w) commit_messages;
               l2 = [Commit_messages commit_messages, Found_story_IDs story_ids]
                    @ (if story_ids = [] then [No_story_IDs_found] else [])
           in case categorize_stories (requests_get w) story_ids of
                (l3, Inl e) \<Rightarrow> (l1 @ l2 @ l3, Inl e)
              | (l3, Inr categories) \<Rightarrow>
                  (case get_current_tag (git w) (repo_path a) of
                     (l4, Inl e) \<Rightarrow>
                       (l1 @ l2 @ l3 @ [Categorized_stories categories] @ l4, Inl e)
                   | (l4, Inr current_tag) \<Rightarrow>
                       (case resolve_version (unicode_decimal w) previous categories
                               current_tag of
                          (l5, Inl e) \<Rightarrow>
                            (l1 @ l2 @ l3 @ [Categorized_stories categories] @ l4 @ l5, Inl e)
                        | (l5, Inr new_version) \<Rightarrow>
                            (case generate_release_notes categories (include_story_links a) of
                               Inl e \<Rightarrow>
                                 (l1 @ l2 @ l3 @ [Categorized_stories categories] @ l4 @ l5,
                                  Inl e)
                             | Inr notes \<Rightarrow>
                                 (l1 @ l2 @ l3 @ [Categorized_stories categories] @ l4 @ l5
                                    @ [Generated_release_notes notes],
                                  Inr \<lparr>tag = u ''v'' @ str_version new_version,
                                      release_notes = notes\<rparr>))))))"

text \<open>
  \<open>main\<close>, from the parsed arguments: the constructor of \<open>ReleaseHandler\<close> leaves
  with status 1 when the token is not set, a previous version that does not parse
  leaves with status 1, and so does every exception of the pipeline.
\<close>

definition main :: "world \<Rightarrow> args \<Rightarrow> log_record list \<times> process_end" where
  "main w a =
     (if \<not> truthy (SHORTCUT_API_TOKEN w) then ([Token_not_set], Exit 1)
      else
        (case Version (unicode_decimal w) (lstrip_v (prev_version a)) of
           Inl e \<Rightarrow> ([Invalid_version_format (prev_version a)], Exit 1)
         | Inr previous \<Rightarrow>
             (case pipeline w a previous of
                (l, Inl e) \<Rightarrow>
                  (Using_previous_version (prev_version a) # l @ [Error_in_main e], Exit 1)
              | (l, Inr output) \<Rightarrow>
                  (Using_previous_version (prev_version a) # l, Printed output))))"

section \<open>The notes as the specification words them\<close>

text \<open>
  The three headings, spelled out: \<open>## \<close>, the prefix of the section and its title. The
  prefix is the one the source file spells: the characters \<open>U+00F0 U+0178 U+0161 U+20AC\<close>
  for the features, \<open>U+00F0 U+0178 U+203A\<close> for the bug fixes and
  \<open>U+00F0 U+0178 U+201D U+00A7\<close> for the chores.
\<close>

definition title_features :: pystr where
  "title_features =
     [0x23, 0x23, 0x20, 0xF0, 0x178, 0x161, 0x20AC, 0x20] @ u ''Features''"

definition title_bug_fixes :: pystr where
  "title_bug_fixes =
     [0x23, 0x23, 0x20, 0xF0, 0x178, 0x203A, 0x20] @ u ''Bug Fixes''"

definition title_chores :: pystr where
  "title_chores =
     [0x23, 0x23, 0x20, 0xF0, 0x178, 0x201D, 0xA7, 0x20] @ u ''Chores''"

text \<open>
  A section is its heading followed by one bullet for each story of the bucket, and it
  is nothing for an empty bucket; the notes are the sections of Features, Bug Fixes and
  Chores, in this order, joined line by line, the second and the third heading with a
  line feed before it.
\<close>

definition spec_bullet :: "bool \<Rightarrow> entry \<Rightarrow> pystr" where
  "spec_bullet links story =
     (if links
      then u ''- ['' @ format_value (the (story (u ''name'')))
           @ u ''](https://app.shortcut.com/story/''
           @ lower_str (format_value (the (story (u ''id'')))) @ u '')''
      else u ''- '' @ format_value (the (story (u ''name''))))"

definition spec_section :: "pystr \<Rightarrow> bool \<Rightarrow> entry list \<Rightarrow> pystr list" where
  "spec_section heading links bucket =
     (if bucket = [] then [] else heading # map (spec_bullet links) bucket)"

definition spec_render :: "entry list \<Rightarrow> entry list \<Rightarrow> entry list \<Rightarrow> bool \<Rightarrow> pystr" where
  "spec_render feature bug chore links =
     join [0x0A]
       (spec_section title_features links feature
        @ spec_section ([0x0A] @ title_bug_fixes) links bug
        @ spec_section ([0x0A] @ title_chores) links chore)"

text \<open>The same notes line by line: the lines that open a section, then its bullets.\<close>

definition spec_opened_section :: "pystr list \<Rightarrow> bool \<Rightarrow> entry list \<Rightarrow> pystr list" where
  "spec_opened_section opening links bucket =
     (if bucket = [] then [] else opening @ map (spec_bullet links) bucket)"

text \<open>An entry that \<open>generate_release_notes\<close> can print: it has a name, and, when links are
  asked for, an id that is a \<open>str\<close>.\<close>

definition printable :: "bool \<Rightarrow> entry \<Rightarrow> bool" where
  "printable links story =
     (story (u ''name'') \<noteq> None
      \<and> (\<not> links \<or> (case story (u ''id'') of Some (Str i) \<Rightarrow> True | _ \<Rightarrow> False)))"

section \<open>Predicates of the properties\<close>

text \<open>A string that matches \<open>^SC-\d+$\<close> with nothing after the digits.\<close>

definition matches_SC_digits :: "decimals \<Rightarrow> pystr \<Rightarrow> bool" where
  "matches_SC_digits nd s =
     (take 3 s = u ''SC-'' \<and> drop 3 s \<noteq> [] \<and> list_all (is_digit nd) (drop 3 s))"

text \<open>
  What \<open>categorize_stories\<close> reads of the story behind an id: the address it asks, the
  type of the story in lower case when reading it raises nothing, and the entry that
  goes into a bucket; and the one step of its loop on the dictionary.
\<close>

definition story_url :: "pystr \<Rightarrow> pystr" where
  "story_url story_id = shortcut_api_url @ u ''/stories/'' @ replace_sc (lower_str story_id)"

definition fetched_type :: "(pystr \<Rightarrow> http_outcome) \<Rightarrow> pystr \<Rightarrow> pystr option" where
  "fetched_type get story_id =
     (case snd (get_story_details get story_id) of
        NonDict \<Rightarrow> None
      | Dict d \<Rightarrow>
          (case dict_get d (u ''story_type'') (Str []) of
             NonStr t \<Rightarrow> None
           | Str t \<Rightarrow> Some (lower_str t)))"

definition fetched_entry :: "(pystr \<Rightarrow> http_outcome) \<Rightarrow> pystr \<Rightarrow> entry" where
  "fetched_entry get story_id =
     (case snd (get_story_details get story_id) of
        NonDict \<Rightarrow> Map.empty
      | Dict d \<Rightarrow>
          [u ''id'' \<mapsto> Str story_id,
           u ''name'' \<mapsto> dict_get d (u ''name'') (Str []),
           u ''description'' \<mapsto> dict_get d (u ''description'') (Str [])])"

definition add_story :: "categories \<Rightarrow> pystr \<Rightarrow> entry \<Rightarrow> categories" where
  "add_story cats k e = (case cats k of None \<Rightarrow> cats | Some bucket \<Rightarrow> cats(k \<mapsto> bucket @ [e]))"

text \<open>A fetch that \<open>get_story_details\<close> takes for failed: \<open>requests\<close> raises a
  \<open>RequestException\<close>, which it does for a status code from 400 to 599 also.\<close>

definition request_failed :: "(pystr \<Rightarrow> http_outcome) \<Rightarrow> pystr \<Rightarrow> bool" where
  "request_failed get story_id =
     (case get (story_url story_id) of
        RequestException \<Rightarrow> True
      | Response status_code body \<Rightarrow> 400 \<le> status_code \<and> status_code < 600)"

section \<open>Values to run the program on\<close>

text \<open>A table of decimal digits with the Arabic-Indic digits \<open>U+0660\<close> to \<open>U+0669\<close>.\<close>

definition arabic_indic :: decimals where
  "arabic_indic c = (if 0x660 \<le> c \<and> c \<le> 0x669 then Some (c - 0x660) else None)"

text \<open>A ticket API that answers every request with the status 300 and a story, and one
  that cannot be reached for the story 1 and answers 404 for every other.\<close>

definition redirecting_api :: "pystr \<Rightarrow> http_outcome" where
  "redirecting_api url =
     Response 300 (Dict [u ''story_type'' \<mapsto> Str (u ''feature''),
                         u ''name'' \<mapsto> Str (u ''Add login'')])"

definition failing_api :: "pystr \<Rightarrow> http_outcome" where
  "failing_api url =
     (if url = u ''https://api.app.shortcut.com/api/v3/stories/1'' then RequestException
      else Response 404 (Dict [u ''story_type'' \<mapsto> Str (u ''feature''),
                               u ''name'' \<mapsto> Str (u ''Not found'')]))"

text \<open>A ticket API with a feature under the number 1 and stories of a type that is no
  category under every other number.\<close>

definition mixed_api :: "pystr \<Rightarrow> http_outcome" where
  "mixed_api url =
     (if url = u ''https://api.app.shortcut.com/api/v3/stories/1''
      then Response 200 (Dict [u ''story_type'' \<mapsto> Str (u ''Feature''),
                               u ''name'' \<mapsto> Str (u ''Add login'')])
      else Response 200 (Dict [u ''story_type'' \<mapsto> Str (u ''epic''),
                               u ''name'' \<mapsto> Str (u ''Next year'')]))"

text \<open>Two dictionaries of categories.\<close>

definition crash_on_load :: categories where
  "crash_on_load =
     [u ''feature'' \<mapsto> [],
      u ''bug'' \<mapsto> [[u ''name'' \<mapsto> Str (u ''Crash on load'')]],
      u ''chore'' \<mapsto> []]"

definition login_and_cleanup :: categories where
  "login_and_cleanup =
     [u ''feature'' \<mapsto> [[u ''id'' \<mapsto> Str (u ''SC-42''), u ''name'' \<mapsto> Str (u ''Add login''),
                          u ''description'' \<mapsto> Str []]],
      u ''bug'' \<mapsto> [],
      u ''chore'' \<mapsto> [[u ''id'' \<mapsto> Str (u ''SC-7''), u ''name'' \<mapsto> Str (u ''Clean up''),
                        u ''description'' \<mapsto> Str []]]]"

text \<open>The current commit bears the tags \<open>latest\<close> and \<open>v1.2.3\<close>, the one commit since the
  previous release names a story, and the story is a feature.\<close>

definition tagged_world :: world where
  "tagged_world =
     \<lparr>SHORTCUT_API_TOKEN = Some (u ''token''),
      git = (\<lambda>cmd. if u ''log'' \<in> set cmd then Exited 0 (u ''Add login sc-1'' @ [0x0A])
                    else Exited 0 (u ''latest'' @ [0x0A] @ u ''v1.2.3'' @ [0x0A])),
      requests_get = (\<lambda>url. Response 200
         (Dict [u ''story_type'' \<mapsto> Str (u ''feature''), u ''name'' \<mapsto> Str (u ''Add login'')])),
      unicode_decimal = arabic_indic\<rparr>"

text \<open>The same, with the tag \<open>v01.2.3\<close> at the current commit.\<close>

definition leading_zero_world :: world where
  "leading_zero_world =
     tagged_world\<lparr>git := (\<lambda>cmd. if u ''log'' \<in> set cmd
                                  then Exited 0 (u ''Add login sc-1'' @ [0x0A])
                                  else Exited 0 (u ''v01.2.3'' @ [0x0A]))\<rparr>"

text \<open>No commit since the previous release, no tag at the current commit, and a ticket
  API that cannot be reached.\<close>

definition quiet_world :: world where
  "quiet_world =
     \<lparr>SHORTCUT_API_TOKEN = Some (u ''token''),
      git = (\<lambda>cmd. if u ''log'' \<in> set cmd then Exited 0 [] else Exited 128 []),
      requests_get = (\<lambda>url. RequestException),
      unicode_decimal = arabic_indic\<rparr>"

text \<open>The definitions that a run on given values unfolds.\<close>

lemmas evaluation =
  u_def cp_def
  main_def pipeline_def resolve_version_def get_current_tag_def git_tag_cmd_def
  get_commits_between_releases_def git_log_cmd_def strip_def is_space_def
  extract_story_ids_def lower_str_def lower_chr_def is_digit_def ascii_digit_def
  categorize_stories_def get_story_details_def shortcut_api_url_def dict_get_def
  determine_version_bump_def getattr_next_def next_major_def next_minor_def next_patch_def
  generate_release_notes_def section_block_def bullet_def
  Version_def three_numbers_def run1_def at_end_def has_leading_zero_def
  validate_identifiers_def int_of_digits_def digit_val_def lstrip_v_def
  is_version_tag_def is_identifier_chr_def str_version_def str_nat.simps digit_chr_def
  arabic_indic_def

section \<open>Characters and runs of digits\<close>

lemma not_digit_s: "\<not> is_digit nd (cp CHR ''s'')"
  by (simp add: is_digit_def ascii_digit_def cp_def)

lemma lower_digit: "is_digit nd c \<Longrightarrow> lower_chr c = c"
  by (auto simp: is_digit_def ascii_digit_def lower_chr_def split: if_splits)

lemma is_digit_lower: "is_digit nd (lower_chr c) = is_digit nd c"
  by (auto simp: is_digit_def ascii_digit_def lower_chr_def)

lemma lower_str_digits: "list_all (is_digit nd) ds \<Longrightarrow> lower_str ds = ds"
proof (induction ds)
  case Nil
  then show ?case by (simp add: lower_str_def)
next
  case (Cons d ds)
  then have "lower_chr d = d" and "lower_str ds = ds"
    using lower_digit [of nd d] by simp_all
  then show ?case by (simp add: lower_str_def)
qed

lemma lower_str_append: "lower_str (a @ b) = lower_str a @ lower_str b"
  by (simp add: lower_str_def)

lemma list_all_takeWhile: "list_all P (takeWhile P xs)"
  by (induction xs) simp_all

lemma takeWhile_run:
  assumes "list_all P ds" and "v = [] \<or> \<not> P (hd v)"
  shows "takeWhile P (ds @ v) = ds"
proof -
  from assms(2) have "takeWhile P v = []"
    by (cases v) auto
  with assms(1) show ?thesis
    by (simp add: takeWhile_append list_all_iff)
qed

lemma dropWhile_run:
  assumes "list_all P ds" and "v = [] \<or> \<not> P (hd v)"
  shows "dropWhile P (ds @ v) = v"
proof -
  from assms(2) have "dropWhile P v = v"
    by (cases v) auto
  with assms(1) show ?thesis
    by (simp add: dropWhile_append list_all_iff)
qed

lemma dropWhile_digits_before_s:
  "dropWhile (is_digit nd) (a @ cp CHR ''s'' # b)
     = dropWhile (is_digit nd) a @ cp CHR ''s'' # b"
  by (induction a) (simp_all add: not_digit_s)

lemma u_sc: "u ''sc-'' = cp CHR ''s'' # u ''c-''"
  by (simp add: u_def)

lemma s_not_c: "cp CHR ''s'' \<noteq> cp CHR ''c''" "cp CHR ''s'' \<noteq> cp CHR ''-''"
  by (simp_all add: cp_def)

lemma u_c_dash: "u ''c-'' = [cp CHR ''c'', cp CHR ''-'']"
  by (simp add: u_def)

section \<open>The matches of \<open>sc-(\d+)\<close>\<close>

lemma finditer_sc_digits:
  "g \<in> set (finditer_sc nd s) \<Longrightarrow> g \<noteq> [] \<and> list_all (is_digit nd) g"
proof (induction nd s rule: finditer_sc.induct)
  case (1 nd)
  then show ?case by simp
next
  case (2 nd c cs)
  let ?hit = "c = cp CHR ''s'' \<and> take 2 cs = u ''c-''
      \<and> takeWhile (is_digit nd) (drop 2 cs) \<noteq> []"
  show ?case
  proof (cases ?hit)
    case True
    then have "finditer_sc nd (c # cs) =
        takeWhile (is_digit nd) (drop 2 cs)
        # finditer_sc nd (dropWhile (is_digit nd) (drop 2 cs))"
      by simp
    with "2.prems" have "g = takeWhile (is_digit nd) (drop 2 cs)
        \<or> g \<in> set (finditer_sc nd (dropWhile (is_digit nd) (drop 2 cs)))"
      by simp
    then show ?thesis
    proof
      assume "g = takeWhile (is_digit nd) (drop 2 cs)"
      with True show ?thesis by (simp add: list_all_takeWhile)
    next
      assume "g \<in> set (finditer_sc nd (dropWhile (is_digit nd) (drop 2 cs)))"
      with True "2.IH"(1) show ?thesis by blast
    qed
  next
    case False
    then have "finditer_sc nd (c # cs) = finditer_sc nd cs" by auto
    with "2.prems" False "2.IH"(2) show ?thesis by simp
  qed
qed

text \<open>Every place where \<open>sc-\<close> stands before a full run of digits is a match: two such
  places cannot overlap, since neither \<open>c\<close>, \<open>-\<close> nor a digit is an \<open>s\<close>.\<close>

lemma finditer_sc_occurrence_aux:
  "ds \<noteq> [] \<Longrightarrow> list_all (is_digit nd) ds \<Longrightarrow> v = [] \<or> \<not> is_digit nd (hd v)
    \<Longrightarrow> \<forall>p. s = p @ u ''sc-'' @ ds @ v \<longrightarrow> ds \<in> set (finditer_sc nd s)"
proof (induction nd s rule: finditer_sc.induct)
  case (1 nd)
  show ?case by (simp add: u_sc)
next
  case (2 nd c cs)
  let ?hit = "c = cp CHR ''s'' \<and> take 2 cs = u ''c-''
      \<and> takeWhile (is_digit nd) (drop 2 cs) \<noteq> []"
  show ?case
  proof (intro allI impI)
    fix p
    assume eq: "c # cs = p @ u ''sc-'' @ ds @ v"
    show "ds \<in> set (finditer_sc nd (c # cs))"
    proof (cases p)
      case Nil
      with eq have c: "c = cp CHR ''s''" and cs: "cs = u ''c-'' @ ds @ v"
        by (simp_all add: u_sc)
      from cs have d: "drop 2 cs = ds @ v" and t: "take 2 cs = u ''c-''"
        by (simp_all add: u_c_dash)
      from d "2.prems"(2,3) have "takeWhile (is_digit nd) (drop 2 cs) = ds"
        by (simp add: takeWhile_run)
      with c t "2.prems"(1) show ?thesis by simp
    next
      case (Cons x p')
      with eq have cs: "cs = p' @ u ''sc-'' @ ds @ v" by simp
      show ?thesis
      proof (cases ?hit)
        case True
        then have t: "take 2 cs = u ''c-''" by simp
        obtain y z p'' where p': "p' = y # z # p''"
        proof (cases p')
          case Nil
          with cs t show ?thesis by (simp add: u_sc u_c_dash s_not_c)
        next
          case (Cons y r)
          show ?thesis
          proof (cases r)
            case Nil
            with Cons cs t show ?thesis by (simp add: u_sc u_c_dash s_not_c)
          next
            case (Cons z p'')
            with \<open>p' = y # r\<close> that show ?thesis by simp
          qed
        qed
        with cs have "drop 2 cs = p'' @ cp CHR ''s'' # u ''c-'' @ ds @ v"
          by (simp add: u_sc)
        then have "dropWhile (is_digit nd) (drop 2 cs)
            = dropWhile (is_digit nd) p'' @ u ''sc-'' @ ds @ v"
          by (simp add: dropWhile_digits_before_s u_sc)
        with True "2.IH"(1) "2.prems"
        have "ds \<in> set (finditer_sc nd (dropWhile (is_digit nd) (drop 2 cs)))"
          by blast
        with True show ?thesis by simp
      next
        case False
        with "2.IH"(2) cs "2.prems" have "ds \<in> set (finditer_sc nd cs)" by blast
        moreover from False have "finditer_sc nd (c # cs) = finditer_sc nd cs" by auto
        ultimately show ?thesis by simp
      qed
    qed
  qed
qed

lemma finditer_sc_occurrence:
  assumes "ds \<noteq> []" and "list_all (is_digit nd) ds" and "v = [] \<or> \<not> is_digit nd (hd v)"
  shows "ds \<in> set (finditer_sc nd (p @ u ''sc-'' @ ds @ v))"
  using finditer_sc_occurrence_aux [OF assms] by blast

section \<open>\<open>extract_story_ids\<close>\<close>

lemma set_extract_story_ids:
  "set (extract_story_ids nd commits) =
     (\<Union>message \<in> set commits.
        (\<lambda>g. u ''SC-'' @ g) ` set (finditer_sc nd (lower_str message)))"
  by (simp add: extract_story_ids_def)

lemma extract_story_ids_shape:
  assumes "i \<in> set (extract_story_ids nd commits)"
  shows "matches_SC_digits nd i"
proof -
  from assms obtain m g where g: "g \<in> set (finditer_sc nd (lower_str m))"
    and i: "i = u ''SC-'' @ g"
    unfolding set_extract_story_ids by blast
  have "length (u ''SC-'') = 3" by (simp add: u_def)
  with i have "take 3 i = u ''SC-''" and "drop 3 i = g" by simp_all
  with finditer_sc_digits [OF g] show ?thesis
    by (simp add: matches_SC_digits_def)
qed

lemma extract_story_ids_occurrence:
  assumes m: "message \<in> set commits"
    and eq: "message = p @ occ @ ds @ v"
    and occ: "lower_str occ = u ''sc-''"
    and ds: "ds \<noteq> []" "list_all (is_digit nd) ds"
    and v: "v = [] \<or> \<not> is_digit nd (hd v)"
  shows "u ''SC-'' @ ds \<in> set (extract_story_ids nd commits)"
proof -
  have v': "lower_str v = [] \<or> \<not> is_digit nd (hd (lower_str v))"
  proof (cases v)
    case Nil
    then show ?thesis by (simp add: lower_str_def)
  next
    case (Cons a r)
    with v show ?thesis by (simp add: lower_str_def is_digit_lower)
  qed
  from eq occ ds(2) have "lower_str message = lower_str p @ u ''sc-'' @ ds @ lower_str v"
    by (simp add: lower_str_append lower_str_digits)
  with finditer_sc_occurrence [OF ds v', of "lower_str p"]
  have "ds \<in> set (finditer_sc nd (lower_str message))" by simp
  with m show ?thesis
    unfolding set_extract_story_ids by blast
qed

lemma extract_story_ids_lower:
  "extract_story_ids nd commits =
     remdups (concat (map (\<lambda>m. map (\<lambda>g. u ''SC-'' @ g) (finditer_sc nd m))
                          (map lower_str commits)))"
  by (simp add: extract_story_ids_def comp_def)

lemma extract_story_ids_fix_12:
  "extract_story_ids nd [u ''fix SC-12''] = [u ''SC-12'']"
  "extract_story_ids nd [u ''fix sc-12''] = [u ''SC-12'']"
  by (simp_all add: extract_story_ids_def lower_str_def lower_chr_def is_digit_def
      ascii_digit_def u_def cp_def)

text \<open>
  C5. For every list of commit subjects and every table of the decimal digits,
  \<open>extract_story_ids\<close> returns a list without duplicates in which every id is \<open>SC-\<close>
  followed by one decimal digit or more, and every occurrence of \<open>sc-\<close>, in any case,
  before a full run of decimal digits gives its id, wherever it stands in a subject and
  however many there are in it. A digit is what \<open>\d\<close> matches: the run ends only where
  the subject ends or where a character follows that is no decimal digit of Unicode.
\<close>

theorem extract_story_ids_ids:
  "distinct (extract_story_ids nd commits)
   \<and> (\<forall>i \<in> set (extract_story_ids nd commits). matches_SC_digits nd i)
   \<and> (\<forall>message \<in> set commits. \<forall>p occ ds v.
        message = p @ occ @ ds @ v \<and> lower_str occ = u ''sc-'' \<and> ds \<noteq> []
        \<and> list_all (is_digit nd) ds \<and> (v = [] \<or> \<not> is_digit nd (hd v))
        \<longrightarrow> u ''SC-'' @ ds \<in> set (extract_story_ids nd commits))"
proof (intro conjI ballI allI impI)
  show "distinct (extract_story_ids nd commits)"
    by (simp add: extract_story_ids_def)
next
  fix i
  assume "i \<in> set (extract_story_ids nd commits)"
  then show "matches_SC_digits nd i" by (rule extract_story_ids_shape)
next
  fix message p occ ds v
  assume "message \<in> set commits"
    and "message = p @ occ @ ds @ v \<and> lower_str occ = u ''sc-'' \<and> ds \<noteq> []
         \<and> list_all (is_digit nd) ds \<and> (v = [] \<or> \<not> is_digit nd (hd v))"
  then show "u ''SC-'' @ ds \<in> set (extract_story_ids nd commits)"
    using extract_story_ids_occurrence [of message commits p occ ds v nd] by blast
qed

theorem extract_story_ids_ids_witness:
  "extract_story_ids arabic_indic [u ''Fix SC-12 and sc-3'', u ''again Sc-12'' @ [0x663]]
     = [u ''SC-12'', u ''SC-3'', u ''SC-12'' @ [0x663]]
   \<and> distinct (extract_story_ids arabic_indic
       [u ''Fix SC-12 and sc-3'', u ''again Sc-12'' @ [0x663]])
   \<and> matches_SC_digits arabic_indic (u ''SC-12'' @ [0x663])
   \<and> u ''SC-'' @ u ''12'' @ [0x663] \<in> set (extract_story_ids arabic_indic
       [u ''Fix SC-12 and sc-3'', u ''again Sc-12'' @ [0x663]])
   \<and> u ''SC-'' @ u ''3'' \<in> set (extract_story_ids arabic_indic
       [u ''Fix SC-12 and sc-3'', u ''again Sc-12'' @ [0x663]])"
proof -
  let ?commits = "[u ''Fix SC-12 and sc-3'', u ''again Sc-12'' @ [0x663]]"
  note inst = extract_story_ids_ids [of arabic_indic ?commits]
  have e: "extract_story_ids arabic_indic ?commits
      = [u ''SC-12'', u ''SC-3'', u ''SC-12'' @ [0x663]]"
    by (simp add: extract_story_ids_def lower_str_def lower_chr_def is_digit_def
        ascii_digit_def arabic_indic_def u_def cp_def)
  from inst have d: "distinct (extract_story_ids arabic_indic ?commits)" by blast
  have "u ''SC-12'' @ [0x663] \<in> set (extract_story_ids arabic_indic ?commits)"
    unfolding e by simp
  with inst have s: "matches_SC_digits arabic_indic (u ''SC-12'' @ [0x663])" by blast
  have "u ''again Sc-12'' @ [0x663] = u ''again '' @ u ''Sc-'' @ (u ''12'' @ [0x663]) @ []
        \<and> lower_str (u ''Sc-'') = u ''sc-'' \<and> u ''12'' @ [0x663] \<noteq> []
        \<and> list_all (is_digit arabic_indic) (u ''12'' @ [0x663])
        \<and> ([] = [] \<or> \<not> is_digit arabic_indic (hd []))"
    by (simp add: lower_str_def lower_chr_def is_digit_def ascii_digit_def arabic_indic_def
        u_def cp_def)
  moreover have "u ''again Sc-12'' @ [0x663] \<in> set ?commits" by simp
  ultimately have a: "u ''SC-'' @ (u ''12'' @ [0x663])
      \<in> set (extract_story_ids arabic_indic ?commits)"
    using inst by blast
  have "u ''Fix SC-12 and sc-3'' = u ''Fix SC-12 and '' @ u ''sc-'' @ u ''3'' @ []
        \<and> lower_str (u ''sc-'') = u ''sc-'' \<and> u ''3'' \<noteq> []
        \<and> list_all (is_digit arabic_indic) (u ''3'')
        \<and> ([] = [] \<or> \<not> is_digit arabic_indic (hd []))"
    by (simp add: lower_str_def lower_chr_def is_digit_def ascii_digit_def arabic_indic_def
        u_def cp_def)
  moreover have "u ''Fix SC-12 and sc-3'' \<in> set ?commits" by simp
  ultimately have b: "u ''SC-'' @ u ''3'' \<in> set (extract_story_ids arabic_indic ?commits)"
    using inst by blast
  from e d s a b show ?thesis by (intro conjI)
qed

text \<open>
  C6. \<open>extract_story_ids\<close> does not see the case of the letters: a subject in which
  an occurrence is written in another case gives the same ids, and \<open>fix SC-12\<close> and
  \<open>fix sc-12\<close> both give \<open>SC-12\<close>.
\<close>

theorem extract_story_ids_case_insensitive:
  assumes "lower_str occ = lower_str occ'"
  shows "extract_story_ids nd (before @ [p @ occ @ v] @ after)
           = extract_story_ids nd (before @ [p @ occ' @ v] @ after)
         \<and> extract_story_ids nd [u ''fix SC-12''] = [u ''SC-12'']
         \<and> extract_story_ids nd [u ''fix sc-12''] = [u ''SC-12'']"
proof -
  from assms have "map lower_str (before @ [p @ occ @ v] @ after)
      = map lower_str (before @ [p @ occ' @ v] @ after)"
    by (simp add: lower_str_append)
  then have "extract_story_ids nd (before @ [p @ occ @ v] @ after)
      = extract_story_ids nd (before @ [p @ occ' @ v] @ after)"
    by (simp only: extract_story_ids_lower)
  with extract_story_ids_fix_12 [of nd] show ?thesis by (intro conjI)
qed

theorem extract_story_ids_case_insensitive_witness:
  "lower_str (u ''Sc-7'') = lower_str (u ''sC-7'')
   \<and> extract_story_ids arabic_indic
       ([u ''first''] @ [u ''Close '' @ u ''Sc-7'' @ u '' now''] @ [u ''last''])
       = extract_story_ids arabic_indic
           ([u ''first''] @ [u ''Close '' @ u ''sC-7'' @ u '' now''] @ [u ''last''])
   \<and> extract_story_ids arabic_indic [u ''fix SC-12''] = [u ''SC-12'']
   \<and> extract_story_ids arabic_indic [u ''fix sc-12''] = [u ''SC-12'']"
proof -
  have h: "lower_str (u ''Sc-7'') = lower_str (u ''sC-7'')"
    by (simp add: lower_str_def lower_chr_def u_def cp_def)
  from extract_story_ids_case_insensitive [OF h, of arabic_indic "[u ''first'']"
      "u ''Close ''" "u '' now''" "[u ''last'']"] h
  show ?thesis by blast
qed

section \<open>Decimal numerals and versions\<close>

declare str_nat.simps [simp del]

lemma ascii_digit_is_digit: "ascii_digit c \<Longrightarrow> is_digit nd c"
  by (simp add: is_digit_def ascii_digit_def)

lemma digit_chr_props:
  assumes "d < 10"
  shows "ascii_digit (digit_chr d) \<and> digit_val nd (digit_chr d) = d
         \<and> (digit_chr d = cp CHR ''0'' \<longleftrightarrow> d = 0)"
  using assms by (simp add: digit_chr_def ascii_digit_def digit_val_def cp_def)

lemma str_nat_not_Nil: "str_nat n \<noteq> []"
  by (subst str_nat.simps) simp

lemma str_nat_ascii: "list_all ascii_digit (str_nat n)"
proof (induction n rule: str_nat.induct)
  case (1 n)
  show ?case
  proof (cases "n < 10")
    case True
    then show ?thesis by (subst str_nat.simps) (simp add: digit_chr_props)
  next
    case False
    with 1 have "list_all ascii_digit (str_nat (n div 10))" by simp
    moreover have "ascii_digit (digit_chr (n mod 10))" by (simp add: digit_chr_props)
    ultimately show ?thesis using False by (subst str_nat.simps) simp
  qed
qed

lemma str_nat_digits: "list_all (is_digit nd) (str_nat n)"
  using str_nat_ascii [of n] by (simp add: list_all_iff ascii_digit_is_digit)

lemma int_of_digits_snoc:
  "int_of_digits nd (s @ [c]) = 10 * int_of_digits nd s + digit_val nd c"
  by (simp add: int_of_digits_def)

lemma int_of_digits_str_nat: "int_of_digits nd (str_nat n) = n"
proof (induction n rule: str_nat.induct)
  case (1 n)
  show ?case
  proof (cases "n < 10")
    case True
    then show ?thesis
      by (subst str_nat.simps) (simp add: int_of_digits_def digit_chr_props)
  next
    case False
    with 1 have "int_of_digits nd (str_nat (n div 10)) = n div 10" by simp
    with False show ?thesis
      by (subst str_nat.simps) (simp add: int_of_digits_snoc digit_chr_props)
  qed
qed

lemma hd_str_nat: "0 < n \<Longrightarrow> hd (str_nat n) \<noteq> cp CHR ''0''"
proof (induction n rule: str_nat.induct)
  case (1 n)
  show ?case
  proof (cases "n < 10")
    case True
    with "1.prems" show ?thesis
      by (subst str_nat.simps) (simp add: digit_chr_props)
  next
    case False
    then have "0 < n div 10" by simp
    with 1 False have "hd (str_nat (n div 10)) \<noteq> cp CHR ''0''" by simp
    with False show ?thesis
      by (subst str_nat.simps) (simp add: str_nat_not_Nil)
  qed
qed

lemma str_nat_0: "str_nat 0 = u ''0''"
  by (subst str_nat.simps) (simp add: digit_chr_def u_def cp_def)

lemma str_nat_no_leading_zero: "\<not> has_leading_zero nd (str_nat n)"
proof (cases "n = 0")
  case True
  then show ?thesis by (simp add: has_leading_zero_def str_nat_0)
next
  case False
  then show ?thesis by (simp add: has_leading_zero_def hd_str_nat)
qed

lemma run1_run:
  assumes "list_all cls ds" and "ds \<noteq> []" and "r = [] \<or> \<not> cls (hd r)"
  shows "run1 cls (ds @ r) = Some (ds, r)"
  using assms by (simp add: run1_def takeWhile_run dropWhile_run)

lemma literal_dot: "literal (cp CHR ''.'') (u ''.'' @ s) = Some s"
  by (simp add: u_def)

lemma hd_dot: "hd (u ''.'' @ s) = cp CHR ''.''"
  by (simp add: u_def)

lemma three_numbers_runs:
  assumes dot: "\<not> cls (cp CHR ''.'')"
    and a: "list_all cls a" "a \<noteq> []"
    and b: "list_all cls b" "b \<noteq> []"
    and c: "list_all cls c" "c \<noteq> []"
    and r: "r = [] \<or> \<not> cls (hd r)"
  shows "three_numbers cls (a @ u ''.'' @ b @ u ''.'' @ c @ r) = Some (a, b, c, r)"
proof -
  have 1: "run1 cls (a @ u ''.'' @ b @ u ''.'' @ c @ r)
      = Some (a, u ''.'' @ b @ u ''.'' @ c @ r)"
    using a dot by (intro run1_run) (simp_all add: hd_dot)
  have 2: "run1 cls (b @ u ''.'' @ c @ r) = Some (b, u ''.'' @ c @ r)"
    using b dot by (intro run1_run) (simp_all add: hd_dot)
  have 3: "run1 cls (c @ r) = Some (c, r)"
    using c r by (intro run1_run)
  from 1 2 3 show ?thesis
    by (simp add: three_numbers_def literal_dot)
qed

lemma dot_no_digit: "\<not> ascii_digit (cp CHR ''.'')" "\<not> is_digit nd (cp CHR ''.'')"
  by (simp_all add: is_digit_def ascii_digit_def cp_def)

lemma three_numbers_str_nat:
  "three_numbers ascii_digit (str_nat a @ u ''.'' @ str_nat b @ u ''.'' @ str_nat c @ [])
     = Some (str_nat a, str_nat b, str_nat c, [])"
  "three_numbers (is_digit nd) (str_nat a @ u ''.'' @ str_nat b @ u ''.'' @ str_nat c @ [])
     = Some (str_nat a, str_nat b, str_nat c, [])"
  by (intro three_numbers_runs dot_no_digit str_nat_ascii str_nat_digits str_nat_not_Nil
      disjI1 refl)+

lemma Version_str_version:
  assumes "prerelease v = []" and "build v = []"
  shows "Version nd (str_version v) = Inr v"
proof -
  have s: "str_version v = str_nat (major v) @ u ''.'' @ str_nat (minor v) @ u ''.''
      @ str_nat (patch v) @ []"
    using assms by (simp add: str_version_def)
  have t: "three_numbers (is_digit nd) (str_version v)
      = Some (str_nat (major v), str_nat (minor v), str_nat (patch v), [])"
    unfolding s by (rule three_numbers_str_nat)
  from t assms show ?thesis
    by (simp add: Version_def at_end_def str_nat_no_leading_zero validate_identifiers_def
        int_of_digits_str_nat)
qed

lemma lstrip_v_tag: "lstrip_v (u ''v'' @ str_version v) = str_version v"
proof -
  have "ascii_digit (hd (str_nat (major v)))"
    using str_nat_ascii [of "major v"] str_nat_not_Nil [of "major v"]
    by (cases "str_nat (major v)") simp_all
  then have "hd (str_nat (major v)) \<noteq> cp CHR ''v''"
    by (auto simp: ascii_digit_def cp_def)
  then have "hd (str_version v) \<noteq> cp CHR ''v''"
    by (simp add: str_version_def str_nat_not_Nil)
  moreover have "str_version v \<noteq> []"
    by (simp add: str_version_def str_nat_not_Nil)
  ultimately have "dropWhile (\<lambda>c. c = cp CHR ''v'') (str_version v) = str_version v"
    by (cases "str_version v") simp_all
  then show ?thesis by (simp add: lstrip_v_def u_def)
qed

lemma is_version_tag_str_version:
  assumes "prerelease v = []" and "build v = []"
  shows "is_version_tag (u ''v'' @ str_version v)"
proof -
  have s: "str_version v = str_nat (major v) @ u ''.'' @ str_nat (minor v) @ u ''.''
      @ str_nat (patch v) @ []"
    using assms by (simp add: str_version_def)
  have t: "three_numbers ascii_digit (str_version v)
      = Some (str_nat (major v), str_nat (minor v), str_nat (patch v), [])"
    unfolding s by (rule three_numbers_str_nat)
  have "literal (cp CHR ''v'') (u ''v'' @ str_version v) = Some (str_version v)"
    by (simp add: u_def)
  with t show ?thesis by (simp add: is_version_tag_def at_end_def)
qed

section \<open>\<open>get_commits_between_releases\<close>\<close>

lemma split_not_Nil: "split sep s \<noteq> []"
  by (induction s) (auto split: list.splits)

text \<open>A return code other than 0 is logged as an error and answered by the empty list;
  nothing is raised.\<close>

lemma get_commits_between_releases_nonzero:
  assumes "run (git_log_cmd base head rp) = Exited returncode out" and "returncode \<noteq> 0"
  shows "get_commits_between_releases run base head rp
           = ([Running_command (git_log_cmd base head rp),
               Error_getting_commits returncode], Inr [])
         \<and> level (Error_getting_commits returncode) = ERROR"
  using assms by (simp add: get_commits_between_releases_def)

text \<open>After the return code 0 the list that is returned is never empty.\<close>

lemma get_commits_between_releases_zero:
  assumes "run (git_log_cmd base head rp) = Exited 0 out"
  shows "\<exists>l commits. get_commits_between_releases run base head rp = (l, Inr commits)
           \<and> commits \<noteq> []"
  using assms by (simp add: get_commits_between_releases_def Let_def split_not_Nil)

text \<open>The two lists hold the same story ids, namely none.\<close>

lemma extract_story_ids_no_commits:
  "extract_story_ids nd [[]] = [] \<and> extract_story_ids nd [] = []"
  by (simp add: extract_story_ids_def lower_str_def)

text \<open>
  C4. A return code other than 0 makes \<open>get_commits_between_releases\<close> log the failure
  and return the empty list, and a run of \<open>git log\<close> that succeeds and finds no commit
  should return what the failure returns. It does not: \<open>git log\<close> with the return code 0
  and an empty output gives the list of one empty subject, logged as one commit found,
  where the return code 128 gives the empty list.
\<close>

theorem get_commits_between_releases_no_commits:
  "get_commits_between_releases (\<lambda>cmd. Exited 0 []) (u ''v1.2.3'') (u ''HEAD'') None
     = ([Running_command [u ''git'', u ''log'', u ''v1.2.3..HEAD'', u ''--format=%s''],
         Found_commits 1 (u ''v1.2.3'') (u ''HEAD'')], Inr [[]])
   \<and> get_commits_between_releases (\<lambda>cmd. Exited 128 []) (u ''v1.2.3'') (u ''HEAD'') None
     = ([Running_command [u ''git'', u ''log'', u ''v1.2.3..HEAD'', u ''--format=%s''],
         Error_getting_commits 128], Inr [])
   \<and> snd (get_commits_between_releases (\<lambda>cmd. Exited 0 []) (u ''v1.2.3'') (u ''HEAD'') None)
       \<noteq> snd (get_commits_between_releases (\<lambda>cmd. Exited 128 []) (u ''v1.2.3'') (u ''HEAD'')
                None)"
  by (simp add: get_commits_between_releases_def git_log_cmd_def strip_def u_def)

section \<open>\<open>determine_version_bump\<close> and the next version\<close>

lemma determine_version_bump_dom:
  assumes "dom categories = {u ''feature'', u ''bug'', u ''chore''}"
  shows "determine_version_bump categories =
           Inr (if the (categories (u ''feature'')) \<noteq> [] then u ''minor'' else u ''patch'')"
proof -
  from assms have "u ''feature'' \<in> dom categories" and "u ''bug'' \<in> dom categories"
    by simp_all
  then obtain f b where "categories (u ''feature'') = Some f"
    and "categories (u ''bug'') = Some b"
    by blast
  then show ?thesis by (simp add: determine_version_bump_def)
qed

lemma bump_names: "u ''minor'' \<noteq> u ''major''" "u ''patch'' \<noteq> u ''major''"
  "u ''patch'' \<noteq> u ''minor''"
  by (simp_all add: u_def cp_def)

lemma Version_1_2_3:
  "Version nd (u ''1.2.3'')
     = Inr \<lparr>major = 1, minor = 2, patch = 3, prerelease = [], build = []\<rparr>"
  by (simp add: Version_def three_numbers_def run1_def is_digit_def ascii_digit_def at_end_def
      has_leading_zero_def validate_identifiers_def int_of_digits_def digit_val_def
      u_def cp_def)

text \<open>
  C1. For every dictionary with the three buckets, the bump is \<open>minor\<close> exactly when
  the bucket of features is not empty, and \<open>patch\<close> otherwise, whatever the bucket of
  bugs holds. Without a tag at the current commit, a previous version that is no
  pre-release gets its minor number raised and its patch number set to 0, or its patch
  number raised: from 1.2.3 the new version is 1.3.0 with a feature, 1.2.4 without.
\<close>

theorem determine_version_bump_minor_iff_feature:
  assumes "dom categories = {u ''feature'', u ''bug'', u ''chore''}"
  shows "determine_version_bump categories =
           Inr (if the (categories (u ''feature'')) \<noteq> [] then u ''minor'' else u ''patch'')
    \<and> (prerelease previous = [] \<longrightarrow>
         snd (resolve_version nd previous categories None) =
           Inr (if the (categories (u ''feature'')) \<noteq> []
                then \<lparr>major = major previous, minor = minor previous + 1, patch = 0,
                      prerelease = [], build = []\<rparr>
                else \<lparr>major = major previous, minor = minor previous, patch = patch previous + 1,
                      prerelease = [], build = []\<rparr>))
    \<and> Version nd (u ''1.2.3'')
        = Inr \<lparr>major = 1, minor = 2, patch = 3, prerelease = [], build = []\<rparr>
    \<and> snd (resolve_version nd \<lparr>major = 1, minor = 2, patch = 3, prerelease = [], build = []\<rparr>
              categories None) =
        Inr (if the (categories (u ''feature'')) \<noteq> []
             then \<lparr>major = 1, minor = 3, patch = 0, prerelease = [], build = []\<rparr>
             else \<lparr>major = 1, minor = 2, patch = 4, prerelease = [], build = []\<rparr>)
    \<and> str_version \<lparr>major = 1, minor = 3, patch = 0, prerelease = [], build = []\<rparr>
        = u ''1.3.0''
    \<and> str_version \<lparr>major = 1, minor = 2, patch = 4, prerelease = [], build = []\<rparr>
        = u ''1.2.4''"
proof -
  note b = determine_version_bump_dom [OF assms]
  have r: "prerelease p = [] \<Longrightarrow> snd (resolve_version nd p categories None) =
           Inr (if the (categories (u ''feature'')) \<noteq> []
                then \<lparr>major = major p, minor = minor p + 1, patch = 0,
                      prerelease = [], build = []\<rparr>
                else \<lparr>major = major p, minor = minor p, patch = patch p + 1,
                      prerelease = [], build = []\<rparr>)" for p
    by (simp add: resolve_version_def b getattr_next_def next_minor_def next_patch_def
        bump_names)
  have s1: "str_version \<lparr>major = 1, minor = 3, patch = 0, prerelease = [], build = []\<rparr>
      = u ''1.3.0''"
    by (simp add: str_version_def str_nat.simps digit_chr_def u_def cp_def)
  have s2: "str_version \<lparr>major = 1, minor = 2, patch = 4, prerelease = [], build = []\<rparr>
      = u ''1.2.4''"
    by (simp add: str_version_def str_nat.simps digit_chr_def u_def cp_def)
  from r [of "\<lparr>major = 1, minor = 2, patch = 3, prerelease = [], build = []\<rparr>"]
  have r123: "snd (resolve_version nd \<lparr>major = 1, minor = 2, patch = 3, prerelease = [],
        build = []\<rparr> categories None) =
        Inr (if the (categories (u ''feature'')) \<noteq> []
             then \<lparr>major = 1, minor = 3, patch = 0, prerelease = [], build = []\<rparr>
             else \<lparr>major = 1, minor = 2, patch = 4, prerelease = [], build = []\<rparr>)"
    by simp
  from r [of previous] have r': "prerelease previous = [] \<longrightarrow>
         snd (resolve_version nd previous categories None) =
           Inr (if the (categories (u ''feature'')) \<noteq> []
                then \<lparr>major = major previous, minor = minor previous + 1, patch = 0,
                      prerelease = [], build = []\<rparr>
                else \<lparr>major = major previous, minor = minor previous, patch = patch previous + 1,
                      prerelease = [], build = []\<rparr>)"
    by blast
  from b r' Version_1_2_3 [of nd] r123 s1 s2 show ?thesis by (intro conjI)
qed

theorem determine_version_bump_minor_iff_feature_witness:
  "dom [u ''feature'' \<mapsto> [[u ''name'' \<mapsto> Str (u ''Add login'')]], u ''bug'' \<mapsto> [],
        u ''chore'' \<mapsto> []]
     = {u ''feature'', u ''bug'', u ''chore''}
   \<and> determine_version_bump
       [u ''feature'' \<mapsto> [[u ''name'' \<mapsto> Str (u ''Add login'')]], u ''bug'' \<mapsto> [],
        u ''chore'' \<mapsto> []]
     = Inr (u ''minor'')
   \<and> snd (resolve_version arabic_indic
            \<lparr>major = 1, minor = 2, patch = 3, prerelease = [], build = []\<rparr>
            [u ''feature'' \<mapsto> [[u ''name'' \<mapsto> Str (u ''Add login'')]], u ''bug'' \<mapsto> [],
             u ''chore'' \<mapsto> []] None)
     = Inr \<lparr>major = 1, minor = 3, patch = 0, prerelease = [], build = []\<rparr>
   \<and> dom crash_on_load = {u ''feature'', u ''bug'', u ''chore''}
   \<and> determine_version_bump crash_on_load = Inr (u ''patch'')
   \<and> snd (resolve_version arabic_indic
            \<lparr>major = 1, minor = 2, patch = 3, prerelease = [], build = []\<rparr>
            crash_on_load None)
     = Inr \<lparr>major = 1, minor = 2, patch = 4, prerelease = [], build = []\<rparr>"
proof -
  let ?f = "[u ''feature'' \<mapsto> [[u ''name'' \<mapsto> Str (u ''Add login'')]], u ''bug'' \<mapsto> [],
            u ''chore'' \<mapsto> ([] :: entry list)]"
  let ?p = "\<lparr>major = 1, minor = 2, patch = 3, prerelease = [], build = []\<rparr>"
  have df: "dom ?f = {u ''feature'', u ''bug'', u ''chore''}" by auto
  have db: "dom crash_on_load = {u ''feature'', u ''bug'', u ''chore''}"
    by (auto simp: crash_on_load_def)
  have ff: "the (?f (u ''feature'')) \<noteq> []" by (simp add: u_def cp_def)
  have fb: "the (crash_on_load (u ''feature'')) = []"
    by (simp add: crash_on_load_def u_def cp_def)
  have pp: "prerelease ?p = []" by simp
  note f = determine_version_bump_minor_iff_feature [OF df, of ?p arabic_indic]
  note b = determine_version_bump_minor_iff_feature [OF db, of ?p arabic_indic]
  from f ff have 1: "determine_version_bump ?f = Inr (u ''minor'')" by simp
  from f [THEN conjunct2, THEN conjunct1, THEN mp, OF pp] ff
  have 2: "snd (resolve_version arabic_indic ?p ?f None)
     = Inr \<lparr>major = 1, minor = 3, patch = 0, prerelease = [], build = []\<rparr>" by simp
  from b fb have 3: "determine_version_bump crash_on_load = Inr (u ''patch'')" by simp
  from b [THEN conjunct2, THEN conjunct1, THEN mp, OF pp] fb
  have 4: "snd (resolve_version arabic_indic ?p crash_on_load None)
     = Inr \<lparr>major = 1, minor = 2, patch = 4, prerelease = [], build = []\<rparr>" by simp
  from df 1 2 db 3 4 show ?thesis by (intro conjI)
qed

section \<open>The tag at the current commit\<close>

lemma strip_line:
  assumes "s \<noteq> []" and "\<not> is_space (hd s)" and "\<not> is_space (last s)"
  shows "strip (s @ [0x0A]) = s"
proof -
  from assms(1,2) have 1: "dropWhile is_space (s @ [0x0A]) = s @ [0x0A]"
    by (cases s) simp_all
  have nl: "is_space 0x0A" by (simp add: is_space_def)
  from assms(1,3) have 2: "dropWhile is_space (rev s) = rev s"
    by (cases "rev s") (simp_all add: last_rev [symmetric] del: last_rev)
  show ?thesis
    by (simp add: strip_def 1 nl 2)
qed

lemma split_no_sep: "sep \<notin> set s \<Longrightarrow> split sep s = [s]"
  by (induction s) auto

lemma ascii_digit_not_space: "ascii_digit c \<Longrightarrow> \<not> is_space c"
  by (auto simp: ascii_digit_def is_space_def)

lemma ascii_digit_not_line_feed: "list_all ascii_digit s \<Longrightarrow> 0x0A \<notin> set s"
  by (auto simp: list_all_iff ascii_digit_def)

lemma ascii_run_digits: "list_all ascii_digit s \<Longrightarrow> list_all (is_digit nd) s"
  by (simp add: list_all_iff ascii_digit_is_digit)

text \<open>A run of the digits 0 to 9 without a leading zero is what \<open>str\<close> writes for the
  number that \<open>int\<close> reads in it.\<close>

lemma str_nat_int_of_digits:
  "s \<noteq> [] \<Longrightarrow> list_all ascii_digit s \<Longrightarrow> \<not> has_leading_zero nd s
     \<Longrightarrow> str_nat (int_of_digits nd s) = s"
proof (induction s rule: rev_nonempty_induct)
  case (single c)
  then have c: "48 \<le> c" "c \<le> 57" by (simp_all add: ascii_digit_def)
  then have "int_of_digits nd [c] = c - 48"
    by (simp add: int_of_digits_def digit_val_def)
  moreover from c have "c - 48 < 10" by simp
  moreover from c have "digit_chr (c - 48) = c" by (simp add: digit_chr_def)
  ultimately show ?case by (subst str_nat.simps) simp
next
  case (snoc c s)
  from snoc.prems(1) have s: "list_all ascii_digit s" and "ascii_digit c"
    by simp_all
  then have c: "48 \<le> c" "c \<le> 57" by (simp_all add: ascii_digit_def)
  from snoc.hyps(1) have "s @ [c] \<noteq> u ''0''" by (simp add: u_def)
  with snoc.prems(2) snoc.prems(1) snoc.hyps(1) have h: "hd s \<noteq> cp CHR ''0''"
    by (simp add: has_leading_zero_def ascii_run_digits ascii_digit_is_digit)
  then have "\<not> has_leading_zero nd s" by (simp add: has_leading_zero_def)
  with snoc.IH s have ih: "str_nat (int_of_digits nd s) = s" by simp
  have pos: "0 < int_of_digits nd s"
  proof (rule ccontr)
    assume "\<not> 0 < int_of_digits nd s"
    with ih have "s = str_nat 0" by simp
    with h show False by (simp add: str_nat_0 u_def)
  qed
  define d where "d = c - 48"
  with c have cd: "c = 48 + d" "d < 10" by simp_all
  from cd have dv: "digit_val nd c = d" by (simp add: digit_val_def)
  let ?n = "10 * int_of_digits nd s + d"
  from cd have m: "?n mod 10 = d" and q: "?n div 10 = int_of_digits nd s"
    by simp_all
  from pos have "\<not> ?n < 10" by simp
  then have "str_nat ?n = str_nat (?n div 10) @ [digit_chr (?n mod 10)]"
    by (subst str_nat.simps) simp
  also from cd have "\<dots> = s @ [c]"
    unfolding m q ih by (simp add: digit_chr_def)
  finally show ?case by (simp add: int_of_digits_snoc dv)
qed

text \<open>Tags of three runs of the digits 0 to 9: the filter of \<open>get_current_tag\<close> takes
  every one of them, \<open>Version\<close> only those without a leading zero.\<close>

lemma literal_v: "literal (cp CHR ''v'') (u ''v'' @ s) = Some s"
  by (simp add: u_def)

lemma is_version_tag_runs:
  assumes "list_all ascii_digit x" "x \<noteq> []" "list_all ascii_digit y" "y \<noteq> []"
    "list_all ascii_digit z" "z \<noteq> []"
  shows "is_version_tag (u ''v'' @ x @ u ''.'' @ y @ u ''.'' @ z)"
proof -
  have "three_numbers ascii_digit (x @ u ''.'' @ y @ u ''.'' @ z @ []) = Some (x, y, z, [])"
    using assms by (intro three_numbers_runs dot_no_digit) simp_all
  then show ?thesis
    by (simp add: is_version_tag_def literal_v at_end_def)
qed

lemma lstrip_v_runs:
  assumes "list_all ascii_digit x" "x \<noteq> []"
  shows "lstrip_v (u ''v'' @ x @ s) = x @ s"
proof -
  from assms have "ascii_digit (hd x)" by (cases x) simp_all
  then have "hd x \<noteq> cp CHR ''v''" by (auto simp: ascii_digit_def cp_def)
  with assms(2) have "dropWhile (\<lambda>c. c = cp CHR ''v'') (x @ s) = x @ s"
    by (cases x) simp_all
  then show ?thesis by (simp add: lstrip_v_def u_def)
qed

lemma Version_runs:
  assumes "list_all ascii_digit x" "x \<noteq> []" "list_all ascii_digit y" "y \<noteq> []"
    "list_all ascii_digit z" "z \<noteq> []"
  shows "Version nd (x @ u ''.'' @ y @ u ''.'' @ z)
    = (if has_leading_zero nd x \<or> has_leading_zero nd y \<or> has_leading_zero nd z
       then Inl ValueError
       else Inr \<lparr>major = int_of_digits nd x, minor = int_of_digits nd y,
                patch = int_of_digits nd z, prerelease = [], build = []\<rparr>)"
proof -
  have "three_numbers (is_digit nd) (x @ u ''.'' @ y @ u ''.'' @ z @ []) = Some (x, y, z, [])"
    using assms by (intro three_numbers_runs dot_no_digit ascii_run_digits) simp_all
  then show ?thesis
    by (simp add: Version_def at_end_def validate_identifiers_def)
qed

lemma resolve_version_runs:
  assumes "list_all ascii_digit x" "x \<noteq> []" "list_all ascii_digit y" "y \<noteq> []"
    "list_all ascii_digit z" "z \<noteq> []"
  shows "resolve_version nd previous categories (Some (u ''v'' @ x @ u ''.'' @ y @ u ''.'' @ z))
    = ([Reusing_existing_tag (u ''v'' @ x @ u ''.'' @ y @ u ''.'' @ z)],
       if has_leading_zero nd x \<or> has_leading_zero nd y \<or> has_leading_zero nd z
       then Inl ValueError
       else Inr \<lparr>major = int_of_digits nd x, minor = int_of_digits nd y,
                patch = int_of_digits nd z, prerelease = [], build = []\<rparr>)"
proof -
  have n: "u ''v'' @ x @ u ''.'' @ y @ u ''.'' @ z \<noteq> []" by (simp add: u_def)
  have l: "lstrip_v (u ''v'' @ x @ u ''.'' @ y @ u ''.'' @ z) = x @ u ''.'' @ y @ u ''.'' @ z"
    using assms(1,2) by (rule lstrip_v_runs)
  show ?thesis
    unfolding resolve_version_def using n
    by (simp only: truthy.simps option.sel l Version_runs [OF assms] if_True)
       (simp split: if_splits)
qed

lemma str_version_runs:
  assumes "list_all ascii_digit x" "x \<noteq> []" "list_all ascii_digit y" "y \<noteq> []"
    "list_all ascii_digit z" "z \<noteq> []"
    and "\<not> has_leading_zero nd x" "\<not> has_leading_zero nd y" "\<not> has_leading_zero nd z"
  shows "str_version \<lparr>major = int_of_digits nd x, minor = int_of_digits nd y,
                      patch = int_of_digits nd z, prerelease = [], build = []\<rparr>
           = x @ u ''.'' @ y @ u ''.'' @ z"
  using assms by (simp add: str_version_def str_nat_int_of_digits)

text \<open>The first line that passes the filter is the tag that is returned.\<close>

lemma get_current_tag_lines:
  assumes "run (git_tag_cmd rp) = Exited 0 out"
    and "split 0x0A (strip out) = before @ [t] @ after"
    and "\<not> list_ex is_version_tag before" and "is_version_tag t"
  shows "get_current_tag run rp
    = ([Running_command (git_tag_cmd rp), Found_existing_version_tag t], Inr (Some t))"
proof -
  from assms(3) have "filter is_version_tag before = []"
    by (simp add: filter_empty_conv list_ex_iff)
  with assms(4) have "filter is_version_tag (before @ [t] @ after)
      = t # filter is_version_tag after"
    by simp
  with assms(1,2) show ?thesis
    by (simp add: get_current_tag_def Let_def)
qed

lemma tag_line:
  assumes "list_all ascii_digit x" "x \<noteq> []" "list_all ascii_digit y" "y \<noteq> []"
    "list_all ascii_digit z" "z \<noteq> []"
  shows "split 0x0A (strip ((u ''v'' @ x @ u ''.'' @ y @ u ''.'' @ z) @ [0x0A]))
    = [] @ [u ''v'' @ x @ u ''.'' @ y @ u ''.'' @ z] @ []"
proof -
  let ?t = "u ''v'' @ x @ u ''.'' @ y @ u ''.'' @ z"
  have h: "\<not> is_space (hd ?t)" by (simp add: u_def cp_def is_space_def)
  from assms(5,6) have "ascii_digit (last z)"
    by (simp add: list_all_iff)
  with assms(6) have l: "\<not> is_space (last ?t)"
    by (simp add: ascii_digit_not_space)
  have n: "?t \<noteq> []" by (simp add: u_def)
  from n h l have s: "strip (?t @ [0x0A]) = ?t" by (rule strip_line)
  have "0x0A \<notin> set ?t"
    using assms(1,3,5) by (simp add: ascii_digit_not_line_feed u_def cp_def)
  then have "split 0x0A ?t = [?t]" by (rule split_no_sep)
  with s show ?thesis by simp
qed

text \<open>What a run that prints has gone through, and when a run prints.\<close>

lemma main_Printed:
  assumes "snd (main w a) = Printed out"
  shows "\<exists>previous l1 commits l3 categories l4 current_tag l5 new_version rendered.
      Version (unicode_decimal w) (lstrip_v (prev_version a)) = Inr previous
    \<and> get_commits_between_releases (git w) (prev_version a) (u ''HEAD'') (repo_path a)
        = (l1, Inr commits)
    \<and> categorize_stories (requests_get w) (extract_story_ids (unicode_decimal w) commits)
        = (l3, Inr categories)
    \<and> get_current_tag (git w) (repo_path a) = (l4, Inr current_tag)
    \<and> resolve_version (unicode_decimal w) previous categories current_tag
        = (l5, Inr new_version)
    \<and> generate_release_notes categories (include_story_links a) = Inr rendered
    \<and> out = \<lparr>tag = u ''v'' @ str_version new_version, release_notes = rendered\<rparr>"
  using assms
  by (auto simp: main_def pipeline_def Let_def split: if_splits sum.splits prod.splits)

lemma main_prints:
  assumes "truthy (SHORTCUT_API_TOKEN w)"
    and "Version (unicode_decimal w) (lstrip_v (prev_version a)) = Inr previous"
    and "snd (get_commits_between_releases (git w) (prev_version a) (u ''HEAD'') (repo_path a))
           = Inr commits"
    and "snd (categorize_stories (requests_get w)
                (extract_story_ids (unicode_decimal w) commits)) = Inr categories"
    and "snd (get_current_tag (git w) (repo_path a)) = Inr current_tag"
    and "snd (resolve_version (unicode_decimal w) previous categories current_tag)
           = Inr new_version"
    and "generate_release_notes categories (include_story_links a) = Inr rendered"
  shows "snd (main w a)
    = Printed \<lparr>tag = u ''v'' @ str_version new_version, release_notes = rendered\<rparr>"
proof -
  obtain l1 where 1: "get_commits_between_releases (git w) (prev_version a) (u ''HEAD'')
      (repo_path a) = (l1, Inr commits)"
    using assms(3) by (cases "get_commits_between_releases (git w) (prev_version a)
      (u ''HEAD'') (repo_path a)") simp
  obtain l3 where 3: "categorize_stories (requests_get w)
      (extract_story_ids (unicode_decimal w) commits) = (l3, Inr categories)"
    using assms(4) by (cases "categorize_stories (requests_get w)
      (extract_story_ids (unicode_decimal w) commits)") simp
  obtain l4 where 4: "get_current_tag (git w) (repo_path a) = (l4, Inr current_tag)"
    using assms(5) by (cases "get_current_tag (git w) (repo_path a)") simp
  obtain l5 where 5: "resolve_version (unicode_decimal w) previous categories current_tag
      = (l5, Inr new_version)"
    using assms(6)
    by (cases "resolve_version (unicode_decimal w) previous categories current_tag") simp
  from assms(1,2,7) 1 3 4 5 show ?thesis
    by (simp add: main_def pipeline_def Let_def)
qed

text \<open>A tag at the current commit that \<open>Version\<close> does not read ends the run with the
  status 1, wherever the run has come to.\<close>

lemma main_exits:
  assumes "snd (get_current_tag (git w) (repo_path a)) = Inr (Some t)"
    and "\<And>previous categories.
           snd (resolve_version (unicode_decimal w) previous categories (Some t)) = Inl e"
  shows "snd (main w a) = Exit 1"
proof (cases "snd (main w a)")
  case (Exit n)
  then show ?thesis
    by (auto simp: main_def split: if_splits sum.splits prod.splits)
next
  case (Printed out)
  from main_Printed [OF this] obtain previous categories l4 current_tag l5 new_version where
    g: "get_current_tag (git w) (repo_path a) = (l4, Inr current_tag)"
    and r: "resolve_version (unicode_decimal w) previous categories current_tag
        = (l5, Inr new_version)"
    by blast
  from g assms(1) have "current_tag = Some t" by simp
  with r assms(2) [of previous categories] show ?thesis by simp
qed

text \<open>
  C2. A tag \<open>v<major>.<minor>.<patch>\<close> of three runs of the digits 0 to 9 passes the
  filter of \<open>get_current_tag\<close>, which returns the first line of the output of \<open>git tag\<close>
  that passes it, whatever lines that are no such tags stand before it. When none of
  the three numbers has a leading zero, the new version is the version of the tag,
  whatever the previous version and the categories are; its text is the tag again; a run
  that prints, prints this very tag; and a run whose other steps succeed does print it,
  the first time and every time after. When one of the numbers has a leading zero,
  \<open>Version\<close> raises \<open>ValueError\<close> and the run ends with the status 1.
\<close>

theorem resolve_version_existing_tag:
  assumes x: "list_all ascii_digit x" "x \<noteq> []"
    and y: "list_all ascii_digit y" "y \<noteq> []"
    and z: "list_all ascii_digit z" "z \<noteq> []"
    and t: "t = u ''v'' @ x @ u ''.'' @ y @ u ''.'' @ z"
    and v: "v = \<lparr>major = int_of_digits (unicode_decimal w) x,
                  minor = int_of_digits (unicode_decimal w) y,
                  patch = int_of_digits (unicode_decimal w) z, prerelease = [], build = []\<rparr>"
  shows "is_version_tag t
    \<and> (run (git_tag_cmd rp) = Exited 0 (t @ [0x0A])
         \<longrightarrow> get_current_tag run rp
               = ([Running_command (git_tag_cmd rp), Found_existing_version_tag t],
                  Inr (Some t)))
    \<and> (run (git_tag_cmd rp) = Exited 0 out
         \<and> split 0x0A (strip out) = before @ [t] @ after
         \<and> \<not> list_ex is_version_tag before
         \<longrightarrow> get_current_tag run rp
               = ([Running_command (git_tag_cmd rp), Found_existing_version_tag t],
                  Inr (Some t)))
    \<and> (\<not> has_leading_zero (unicode_decimal w) x \<and> \<not> has_leading_zero (unicode_decimal w) y
         \<and> \<not> has_leading_zero (unicode_decimal w) z
         \<longrightarrow> resolve_version (unicode_decimal w) previous categories (Some t)
               = ([Reusing_existing_tag t], Inr v)
             \<and> u ''v'' @ str_version v = t
             \<and> (snd (get_current_tag (git w) (repo_path a)) = Inr (Some t)
                  \<and> snd (main w a) = Printed printed
                  \<longrightarrow> tag printed = t)
             \<and> (truthy (SHORTCUT_API_TOKEN w)
                  \<and> Version (unicode_decimal w) (lstrip_v (prev_version a)) = Inr parsed
                  \<and> snd (get_commits_between_releases (git w) (prev_version a) (u ''HEAD'')
                          (repo_path a)) = Inr commits
                  \<and> snd (categorize_stories (requests_get w)
                          (extract_story_ids (unicode_decimal w) commits)) = Inr fetched
                  \<and> snd (get_current_tag (git w) (repo_path a)) = Inr (Some t)
                  \<and> generate_release_notes fetched (include_story_links a) = Inr rendered
                  \<longrightarrow> snd (main w a) = Printed \<lparr>tag = t, release_notes = rendered\<rparr>))
    \<and> (has_leading_zero (unicode_decimal w) x \<or> has_leading_zero (unicode_decimal w) y
         \<or> has_leading_zero (unicode_decimal w) z
         \<longrightarrow> resolve_version (unicode_decimal w) previous categories (Some t)
               = ([Reusing_existing_tag t], Inl ValueError)
             \<and> (snd (get_current_tag (git w) (repo_path a)) = Inr (Some t)
                  \<longrightarrow> snd (main w a) = Exit 1))"
proof -
  let ?nd = "unicode_decimal w"
  have 1: "is_version_tag t"
    unfolding t by (rule is_version_tag_runs [OF x y z])
  have 2: "run (git_tag_cmd rp) = Exited 0 (t @ [0x0A])
      \<longrightarrow> get_current_tag run rp
            = ([Running_command (git_tag_cmd rp), Found_existing_version_tag t], Inr (Some t))"
  proof
    assume r: "run (git_tag_cmd rp) = Exited 0 (t @ [0x0A])"
    have s: "split 0x0A (strip (t @ [0x0A])) = [] @ [t] @ []"
      unfolding t by (rule tag_line [OF x y z])
    have e: "\<not> list_ex is_version_tag []" by simp
    from r s e 1 show "get_current_tag run rp
        = ([Running_command (git_tag_cmd rp), Found_existing_version_tag t], Inr (Some t))"
      by (rule get_current_tag_lines)
  qed
  have 3: "run (git_tag_cmd rp) = Exited 0 out
      \<and> split 0x0A (strip out) = before @ [t] @ after
      \<and> \<not> list_ex is_version_tag before
      \<longrightarrow> get_current_tag run rp
            = ([Running_command (git_tag_cmd rp), Found_existing_version_tag t], Inr (Some t))"
    using get_current_tag_lines [of run rp out before t after] 1 by blast
  have r: "resolve_version ?nd p c (Some t)
      = ([Reusing_existing_tag t],
         if has_leading_zero ?nd x \<or> has_leading_zero ?nd y \<or> has_leading_zero ?nd z
         then Inl ValueError else Inr v)" for p c
    unfolding t v by (rule resolve_version_runs [OF x y z])
  have 4: "\<not> has_leading_zero ?nd x \<and> \<not> has_leading_zero ?nd y \<and> \<not> has_leading_zero ?nd z
      \<longrightarrow> resolve_version ?nd previous categories (Some t) = ([Reusing_existing_tag t], Inr v)
        \<and> u ''v'' @ str_version v = t
        \<and> (snd (get_current_tag (git w) (repo_path a)) = Inr (Some t)
             \<and> snd (main w a) = Printed printed
             \<longrightarrow> tag printed = t)
        \<and> (truthy (SHORTCUT_API_TOKEN w)
             \<and> Version ?nd (lstrip_v (prev_version a)) = Inr parsed
             \<and> snd (get_commits_between_releases (git w) (prev_version a) (u ''HEAD'')
                     (repo_path a)) = Inr commits
             \<and> snd (categorize_stories (requests_get w) (extract_story_ids ?nd commits))
                 = Inr fetched
             \<and> snd (get_current_tag (git w) (repo_path a)) = Inr (Some t)
             \<and> generate_release_notes fetched (include_story_links a) = Inr rendered
             \<longrightarrow> snd (main w a) = Printed \<lparr>tag = t, release_notes = rendered\<rparr>)"
  proof
    assume nz: "\<not> has_leading_zero ?nd x \<and> \<not> has_leading_zero ?nd y
        \<and> \<not> has_leading_zero ?nd z"
    then have rv: "resolve_version ?nd p c (Some t) = ([Reusing_existing_tag t], Inr v)"
      for p c
      by (simp add: r)
    from nz have "str_version v = x @ u ''.'' @ y @ u ''.'' @ z"
      unfolding v by (intro str_version_runs x y z) simp_all
    then have tv: "u ''v'' @ str_version v = t" by (simp add: t)
    have a1: "snd (get_current_tag (git w) (repo_path a)) = Inr (Some t)
        \<and> snd (main w a) = Printed printed \<longrightarrow> tag printed = t"
    proof
      assume h: "snd (get_current_tag (git w) (repo_path a)) = Inr (Some t)
          \<and> snd (main w a) = Printed printed"
      with main_Printed [of w a printed]
      obtain p c l4 current_tag l5 new_version rendered' where
        g: "get_current_tag (git w) (repo_path a) = (l4, Inr current_tag)"
        and rr: "resolve_version ?nd p c current_tag = (l5, Inr new_version)"
        and o: "printed = \<lparr>tag = u ''v'' @ str_version new_version,
                            release_notes = rendered'\<rparr>"
        by blast
      from g h have "current_tag = Some t" by simp
      with rr rv [of p c] have "new_version = v" by simp
      with o tv show "tag printed = t" by simp
    qed
    have a2: "truthy (SHORTCUT_API_TOKEN w)
        \<and> Version ?nd (lstrip_v (prev_version a)) = Inr parsed
        \<and> snd (get_commits_between_releases (git w) (prev_version a) (u ''HEAD'')
                (repo_path a)) = Inr commits
        \<and> snd (categorize_stories (requests_get w) (extract_story_ids ?nd commits))
            = Inr fetched
        \<and> snd (get_current_tag (git w) (repo_path a)) = Inr (Some t)
        \<and> generate_release_notes fetched (include_story_links a) = Inr rendered
        \<longrightarrow> snd (main w a) = Printed \<lparr>tag = t, release_notes = rendered\<rparr>"
    proof
      assume h: "truthy (SHORTCUT_API_TOKEN w)
        \<and> Version ?nd (lstrip_v (prev_version a)) = Inr parsed
        \<and> snd (get_commits_between_releases (git w) (prev_version a) (u ''HEAD'')
                (repo_path a)) = Inr commits
        \<and> snd (categorize_stories (requests_get w) (extract_story_ids ?nd commits))
            = Inr fetched
        \<and> snd (get_current_tag (git w) (repo_path a)) = Inr (Some t)
        \<and> generate_release_notes fetched (include_story_links a) = Inr rendered"
      have "snd (resolve_version ?nd parsed fetched (Some t)) = Inr v"
        by (simp add: rv)
      with h have "snd (main w a)
          = Printed \<lparr>tag = u ''v'' @ str_version v, release_notes = rendered\<rparr>"
        by (intro main_prints [of w a parsed commits fetched "Some t" v rendered]) simp_all
      then show "snd (main w a) = Printed \<lparr>tag = t, release_notes = rendered\<rparr>"
        by (simp only: tv)
    qed
    from rv [of previous categories] tv a1 a2
    show "resolve_version ?nd previous categories (Some t) = ([Reusing_existing_tag t], Inr v)
        \<and> u ''v'' @ str_version v = t
        \<and> (snd (get_current_tag (git w) (repo_path a)) = Inr (Some t)
             \<and> snd (main w a) = Printed printed
             \<longrightarrow> tag printed = t)
        \<and> (truthy (SHORTCUT_API_TOKEN w)
             \<and> Version ?nd (lstrip_v (prev_version a)) = Inr parsed
             \<and> snd (get_commits_between_releases (git w) (prev_version a) (u ''HEAD'')
                     (repo_path a)) = Inr commits
             \<and> snd (categorize_stories (requests_get w) (extract_story_ids ?nd commits))
                 = Inr fetched
             \<and> snd (get_current_tag (git w) (repo_path a)) = Inr (Some t)
             \<and> generate_release_notes fetched (include_story_links a) = Inr rendered
             \<longrightarrow> snd (main w a) = Printed \<lparr>tag = t, release_notes = rendered\<rparr>)"
      by (intro conjI)
  qed
  have 5: "has_leading_zero ?nd x \<or> has_leading_zero ?nd y \<or> has_leading_zero ?nd z
      \<longrightarrow> resolve_version ?nd previous categories (Some t)
            = ([Reusing_existing_tag t], Inl ValueError)
        \<and> (snd (get_current_tag (git w) (repo_path a)) = Inr (Some t)
             \<longrightarrow> snd (main w a) = Exit 1)"
  proof
    assume lz: "has_leading_zero ?nd x \<or> has_leading_zero ?nd y \<or> has_leading_zero ?nd z"
    then have rv: "resolve_version ?nd p c (Some t)
        = ([Reusing_existing_tag t], Inl ValueError)" for p c
      by (simp add: r)
    have "snd (get_current_tag (git w) (repo_path a)) = Inr (Some t)
        \<longrightarrow> snd (main w a) = Exit 1"
    proof
      assume g: "snd (get_current_tag (git w) (repo_path a)) = Inr (Some t)"
      have "snd (resolve_version ?nd p c (Some t)) = Inl ValueError" for p c
        by (simp add: rv)
      with g show "snd (main w a) = Exit 1" by (rule main_exits)
    qed
    with rv [of previous categories]
    show "resolve_version ?nd previous categories (Some t)
            = ([Reusing_existing_tag t], Inl ValueError)
        \<and> (snd (get_current_tag (git w) (repo_path a)) = Inr (Some t)
             \<longrightarrow> snd (main w a) = Exit 1)"
      by (intro conjI)
  qed
  from 1 2 3 4 5 show ?thesis by (intro conjI)
qed

theorem resolve_version_existing_tag_witness:
  "is_version_tag (u ''v1.2.3'')
   \<and> get_current_tag (git tagged_world) None
       = ([Running_command [u ''git'', u ''tag'', u ''--points-at'', u ''HEAD''],
           Found_existing_version_tag (u ''v1.2.3'')], Inr (Some (u ''v1.2.3'')))
   \<and> resolve_version arabic_indic
        \<lparr>major = 1, minor = 2, patch = 2, prerelease = [], build = []\<rparr> login_and_cleanup
        (Some (u ''v1.2.3''))
       = ([Reusing_existing_tag (u ''v1.2.3'')],
          Inr \<lparr>major = 1, minor = 2, patch = 3, prerelease = [], build = []\<rparr>)
   \<and> snd (main tagged_world
            \<lparr>prev_version = u ''v1.2.2'', repo_path = None, include_story_links = False\<rparr>)
       = Printed \<lparr>tag = u ''v1.2.3'',
                  release_notes = title_features @ [0x0A] @ u ''- Add login''\<rparr>
   \<and> is_version_tag (u ''v01.2.3'')
   \<and> get_current_tag (git leading_zero_world) None
       = ([Running_command [u ''git'', u ''tag'', u ''--points-at'', u ''HEAD''],
           Found_existing_version_tag (u ''v01.2.3'')], Inr (Some (u ''v01.2.3'')))
   \<and> resolve_version arabic_indic
        \<lparr>major = 1, minor = 2, patch = 2, prerelease = [], build = []\<rparr> login_and_cleanup
        (Some (u ''v01.2.3''))
       = ([Reusing_existing_tag (u ''v01.2.3'')], Inl ValueError)
   \<and> snd (main leading_zero_world
            \<lparr>prev_version = u ''v1.2.2'', repo_path = None, include_story_links = False\<rparr>)
       = Exit 1"
proof -
  let ?a = "\<lparr>prev_version = u ''v1.2.2'', repo_path = None, include_story_links = False\<rparr>"
  let ?p = "\<lparr>major = 1, minor = 2, patch = 2, prerelease = [], build = []\<rparr>"
  let ?fetched = "[u ''bug'' \<mapsto> [], u ''chore'' \<mapsto> [],
                   u ''feature'' \<mapsto> [[u ''id'' \<mapsto> Str (u ''SC-1''),
                                       u ''name'' \<mapsto> Str (u ''Add login''),
                                       u ''description'' \<mapsto> Str []]]]"
  let ?rendered = "title_features @ [0x0A] @ u ''- Add login''"
  let ?out = "u ''latest'' @ [0x0A] @ u ''v1.2.3'' @ [0x0A]"
  have d: "list_all ascii_digit (u ''1'')" "u ''1'' \<noteq> []"
    "list_all ascii_digit (u ''2'')" "u ''2'' \<noteq> []"
    "list_all ascii_digit (u ''3'')" "u ''3'' \<noteq> []"
    "list_all ascii_digit (u ''01'')" "u ''01'' \<noteq> []"
    by (simp_all add: ascii_digit_def u_def cp_def)
  have t: "u ''v1.2.3'' = u ''v'' @ u ''1'' @ u ''.'' @ u ''2'' @ u ''.'' @ u ''3''"
    and t0: "u ''v01.2.3'' = u ''v'' @ u ''01'' @ u ''.'' @ u ''2'' @ u ''.'' @ u ''3''"
    by (simp_all add: u_def)
  have nd: "unicode_decimal tagged_world = arabic_indic"
    "unicode_decimal leading_zero_world = arabic_indic"
    by (simp_all add: tagged_world_def leading_zero_world_def)
  have c: "git_tag_cmd None = [u ''git'', u ''tag'', u ''--points-at'', u ''HEAD'']"
    by (simp add: git_tag_cmd_def)
  note one = resolve_version_existing_tag [OF d(1-6) t refl,
      where w = tagged_world and run = "git tagged_world" and rp = None and out = ?out
        and before = "[u ''latest'']" and after = "[]" and previous = ?p
        and categories = login_and_cleanup and a = ?a and parsed = ?p
        and commits = "[u ''Add login sc-1'']" and fetched = ?fetched
        and rendered = ?rendered, unfolded nd c]
  note zero = resolve_version_existing_tag [OF d(7,8) d(3-6) t0 refl,
      where w = leading_zero_world and run = "git leading_zero_world" and rp = None
        and previous = ?p and categories = login_and_cleanup and a = ?a, unfolded nd c]
  have v: "\<lparr>major = int_of_digits arabic_indic (u ''1''),
            minor = int_of_digits arabic_indic (u ''2''),
            patch = int_of_digits arabic_indic (u ''3''), prerelease = [], build = []\<rparr>
      = \<lparr>major = 1, minor = 2, patch = 3, prerelease = [], build = []\<rparr>"
    by (simp add: int_of_digits_def digit_val_def u_def cp_def)
  have 1: "is_version_tag (u ''v1.2.3'')"
    by (rule one [THEN conjunct1])
  have "git tagged_world [u ''git'', u ''tag'', u ''--points-at'', u ''HEAD''] = Exited 0 ?out
      \<and> split 0x0A (strip ?out) = [u ''latest''] @ [u ''v1.2.3''] @ []
      \<and> \<not> list_ex is_version_tag [u ''latest'']"
    by (simp add: tagged_world_def evaluation literal.simps)
  from one [THEN conjunct2, THEN conjunct2, THEN conjunct1, THEN mp, OF this]
  have 2: "get_current_tag (git tagged_world) None
       = ([Running_command [u ''git'', u ''tag'', u ''--points-at'', u ''HEAD''],
           Found_existing_version_tag (u ''v1.2.3'')], Inr (Some (u ''v1.2.3'')))"
    by (simp only: c)
  have nz: "\<not> has_leading_zero arabic_indic (u ''1'')
      \<and> \<not> has_leading_zero arabic_indic (u ''2'')
      \<and> \<not> has_leading_zero arabic_indic (u ''3'')"
    by (simp add: has_leading_zero_def u_def cp_def)
  note four = one [THEN conjunct2, THEN conjunct2, THEN conjunct2, THEN conjunct1, THEN mp,
      OF nz, unfolded v]
  have 3: "resolve_version arabic_indic ?p login_and_cleanup (Some (u ''v1.2.3''))
       = ([Reusing_existing_tag (u ''v1.2.3'')],
          Inr \<lparr>major = 1, minor = 2, patch = 3, prerelease = [], build = []\<rparr>)"
    by (rule four [THEN conjunct1])
  have h1: "truthy (SHORTCUT_API_TOKEN tagged_world)"
    by (simp add: tagged_world_def u_def)
  have h2: "Version arabic_indic (lstrip_v (prev_version ?a)) = Inr ?p"
    by (simp add: evaluation)
  have h3: "snd (get_commits_between_releases (git tagged_world) (prev_version ?a) (u ''HEAD'')
      (repo_path ?a)) = Inr [u ''Add login sc-1'']"
    by (simp add: tagged_world_def evaluation)
  have h4: "snd (categorize_stories (requests_get tagged_world)
      (extract_story_ids arabic_indic [u ''Add login sc-1''])) = Inr ?fetched"
    by (simp add: tagged_world_def evaluation)
  have h5: "snd (get_current_tag (git tagged_world) (repo_path ?a)) = Inr (Some (u ''v1.2.3''))"
    using 2 by simp
  have h6: "generate_release_notes ?fetched (include_story_links ?a) = Inr ?rendered"
    by (simp add: evaluation heading_features_def heading_bug_fixes_def heading_chores_def
        title_features_def)
  from h1 h2 h3 h4 h5 h6
  have "truthy (SHORTCUT_API_TOKEN tagged_world)
      \<and> Version arabic_indic (lstrip_v (prev_version ?a)) = Inr ?p
      \<and> snd (get_commits_between_releases (git tagged_world) (prev_version ?a) (u ''HEAD'')
          (repo_path ?a)) = Inr [u ''Add login sc-1'']
      \<and> snd (categorize_stories (requests_get tagged_world)
          (extract_story_ids arabic_indic [u ''Add login sc-1''])) = Inr ?fetched
      \<and> snd (get_current_tag (git tagged_world) (repo_path ?a)) = Inr (Some (u ''v1.2.3''))
      \<and> generate_release_notes ?fetched (include_story_links ?a) = Inr ?rendered"
    by (intro conjI)
  from four [THEN conjunct2, THEN conjunct2, THEN conjunct2, THEN mp, OF this]
  have 4: "snd (main tagged_world ?a)
      = Printed \<lparr>tag = u ''v1.2.3'', release_notes = ?rendered\<rparr>" .
  have 5: "is_version_tag (u ''v01.2.3'')"
    by (rule zero [THEN conjunct1])
  have "git leading_zero_world [u ''git'', u ''tag'', u ''--points-at'', u ''HEAD'']
      = Exited 0 (u ''v01.2.3'' @ [0x0A])"
    by (simp add: leading_zero_world_def tagged_world_def u_def cp_def)
  from zero [THEN conjunct2, THEN conjunct1, THEN mp, OF this]
  have 6: "get_current_tag (git leading_zero_world) None
       = ([Running_command [u ''git'', u ''tag'', u ''--points-at'', u ''HEAD''],
           Found_existing_version_tag (u ''v01.2.3'')], Inr (Some (u ''v01.2.3'')))"
    by (simp only: c)
  have lz: "has_leading_zero arabic_indic (u ''01'')
      \<or> has_leading_zero arabic_indic (u ''2'') \<or> has_leading_zero arabic_indic (u ''3'')"
    by (simp add: has_leading_zero_def is_digit_def ascii_digit_def u_def cp_def)
  note five = zero [THEN conjunct2, THEN conjunct2, THEN conjunct2, THEN conjunct2, THEN mp,
      OF lz]
  have 7: "resolve_version arabic_indic ?p login_and_cleanup (Some (u ''v01.2.3''))
       = ([Reusing_existing_tag (u ''v01.2.3'')], Inl ValueError)"
    by (rule five [THEN conjunct1])
  have "snd (get_current_tag (git leading_zero_world) (repo_path ?a))
      = Inr (Some (u ''v01.2.3''))"
    using 6 by simp
  from five [THEN conjunct2, THEN mp, OF this]
  have 8: "snd (main leading_zero_world ?a) = Exit 1" .
  from 1 2 3 4 5 6 7 8 show ?thesis by (intro conjI)
qed

text \<open>C2, as it is stated, fails for the tag \<open>v01.2.3\<close>: the tag matches
  \<open>v<major>.<minor>.<patch>\<close> and \<open>get_current_tag\<close> returns it, but no version comes
  back: \<open>Version\<close> raises \<open>ValueError\<close> and the run ends with the status 1, printing no
  tag.\<close>

theorem resolve_version_leading_zero_tag:
  "is_version_tag (u ''v01.2.3'')
   \<and> snd (get_current_tag (git leading_zero_world) None) = Inr (Some (u ''v01.2.3''))
   \<and> snd (resolve_version (unicode_decimal leading_zero_world)
            \<lparr>major = 1, minor = 2, patch = 2, prerelease = [], build = []\<rparr> login_and_cleanup
            (Some (u ''v01.2.3''))) = Inl ValueError
   \<and> snd (main leading_zero_world
            \<lparr>prev_version = u ''v1.2.2'', repo_path = None, include_story_links = False\<rparr>)
       = Exit 1"
  by (simp add: leading_zero_world_def tagged_world_def evaluation literal.simps)

section \<open>Notes without stories\<close>

text \<open>
  C10. With three empty buckets \<open>generate_release_notes\<close> returns the empty string,
  with links and without, and a run whose other steps succeed prints the object with
  the new tag and the empty string as its notes.
\<close>

theorem generate_release_notes_no_stories:
  assumes "categories (u ''feature'') = Some []" and "categories (u ''bug'') = Some []"
    and "categories (u ''chore'') = Some []"
  shows "generate_release_notes categories links = Inr []
    \<and> (truthy (SHORTCUT_API_TOKEN w)
        \<and> Version (unicode_decimal w) (lstrip_v (prev_version a)) = Inr previous
        \<and> snd (get_commits_between_releases (git w) (prev_version a) (u ''HEAD'')
                (repo_path a)) = Inr commits
        \<and> snd (categorize_stories (requests_get w)
                (extract_story_ids (unicode_decimal w) commits)) = Inr categories
        \<and> snd (get_current_tag (git w) (repo_path a)) = Inr current_tag
        \<and> snd (resolve_version (unicode_decimal w) previous categories current_tag)
            = Inr new_version
        \<longrightarrow> snd (main w a)
              = Printed \<lparr>tag = u ''v'' @ str_version new_version, release_notes = []\<rparr>)"
proof -
  have n: "generate_release_notes categories l = Inr []" for l
    using assms by (simp add: generate_release_notes_def section_block_def)
  have "snd (main w a)
      = Printed \<lparr>tag = u ''v'' @ str_version new_version, release_notes = []\<rparr>"
    if h: "truthy (SHORTCUT_API_TOKEN w)
        \<and> Version (unicode_decimal w) (lstrip_v (prev_version a)) = Inr previous
        \<and> snd (get_commits_between_releases (git w) (prev_version a) (u ''HEAD'')
                (repo_path a)) = Inr commits
        \<and> snd (categorize_stories (requests_get w)
                (extract_story_ids (unicode_decimal w) commits)) = Inr categories
        \<and> snd (get_current_tag (git w) (repo_path a)) = Inr current_tag
        \<and> snd (resolve_version (unicode_decimal w) previous categories current_tag)
            = Inr new_version"
    using h n [of "include_story_links a"]
    by (intro main_prints [of w a previous commits categories current_tag new_version "[]"])
       simp_all
  with n [of links] show ?thesis by blast
qed

theorem generate_release_notes_no_stories_witness:
  "[u ''feature'' \<mapsto> [], u ''bug'' \<mapsto> [], u ''chore'' \<mapsto> ([] :: entry list)] (u ''feature'')
     = Some []
   \<and> generate_release_notes [u ''feature'' \<mapsto> [], u ''bug'' \<mapsto> [], u ''chore'' \<mapsto> []] True
       = Inr []
   \<and> generate_release_notes [u ''feature'' \<mapsto> [], u ''bug'' \<mapsto> [], u ''chore'' \<mapsto> []] False
       = Inr []
   \<and> truthy (SHORTCUT_API_TOKEN quiet_world)
   \<and> snd (main quiet_world
            \<lparr>prev_version = u ''v1.2.3'', repo_path = None, include_story_links = True\<rparr>)
       = Printed \<lparr>tag = u ''v1.2.4'', release_notes = []\<rparr>"
proof -
  let ?c = "[u ''feature'' \<mapsto> [], u ''bug'' \<mapsto> [], u ''chore'' \<mapsto> ([] :: entry list)]"
  let ?a = "\<lparr>prev_version = u ''v1.2.3'', repo_path = None, include_story_links = True\<rparr>"
  let ?p = "\<lparr>major = 1, minor = 2, patch = 3, prerelease = [], build = []\<rparr>"
  let ?n = "\<lparr>major = 1, minor = 2, patch = 4, prerelease = [], build = []\<rparr>"
  have c: "?c (u ''feature'') = Some []" "?c (u ''bug'') = Some []"
    "?c (u ''chore'') = Some []"
    by (simp_all add: u_def cp_def)
  have nd: "unicode_decimal quiet_world = arabic_indic"
    by (simp add: quiet_world_def)
  have 1: "truthy (SHORTCUT_API_TOKEN quiet_world)"
    by (simp add: quiet_world_def u_def)
  have 2: "Version arabic_indic (lstrip_v (prev_version ?a)) = Inr ?p"
    by (simp add: evaluation)
  have 3: "snd (get_commits_between_releases (git quiet_world) (prev_version ?a) (u ''HEAD'')
      (repo_path ?a)) = Inr [[]]"
    by (simp add: quiet_world_def evaluation)
  have 4: "snd (categorize_stories (requests_get quiet_world)
      (extract_story_ids arabic_indic [[]])) = Inr ?c"
    by (simp add: quiet_world_def evaluation)
  have 5: "snd (get_current_tag (git quiet_world) (repo_path ?a)) = Inr None"
    by (simp add: quiet_world_def evaluation)
  have 6: "snd (resolve_version arabic_indic ?p ?c None) = Inr ?n"
    by (simp add: evaluation)
  have s: "str_version ?n = u ''1.2.4''"
    by (simp add: evaluation)
  note inst = generate_release_notes_no_stories [OF c,
      where w = quiet_world and a = ?a and previous = ?p and commits = "[[]]"
        and current_tag = None and new_version = ?n, unfolded nd]
  have n: "generate_release_notes ?c True = Inr []"
    by (rule inst [THEN conjunct1])
  have n': "generate_release_notes ?c False = Inr []"
    by (rule inst [THEN conjunct1])
  from 1 2 3 4 5 6
  have "truthy (SHORTCUT_API_TOKEN quiet_world)
      \<and> Version arabic_indic (lstrip_v (prev_version ?a)) = Inr ?p
      \<and> snd (get_commits_between_releases (git quiet_world) (prev_version ?a) (u ''HEAD'')
            (repo_path ?a)) = Inr [[]]
      \<and> snd (categorize_stories (requests_get quiet_world)
            (extract_story_ids arabic_indic [[]])) = Inr ?c
      \<and> snd (get_current_tag (git quiet_world) (repo_path ?a)) = Inr None
      \<and> snd (resolve_version arabic_indic ?p ?c None) = Inr ?n"
    by (intro conjI)
  from inst [THEN conjunct2, THEN mp, OF this]
  have "snd (main quiet_world ?a)
      = Printed \<lparr>tag = u ''v'' @ str_version ?n, release_notes = []\<rparr>" .
  moreover have "u ''v'' @ str_version ?n = u ''v1.2.4''"
    unfolding s by (simp add: u_def)
  ultimately have m: "snd (main quiet_world ?a)
      = Printed \<lparr>tag = u ''v1.2.4'', release_notes = []\<rparr>"
    by (simp only:)
  from c(1) n n' 1 m show ?thesis by (intro conjI)
qed

section \<open>\<open>generate_release_notes\<close>\<close>

text \<open>The three literals of the source are the three headings, the second and the third
  with a line feed before them.\<close>

lemma heading_titles:
  "heading_features = title_features"
  "heading_bug_fixes = [0x0A] @ title_bug_fixes"
  "heading_chores = [0x0A] @ title_chores"
  by (simp_all add: heading_features_def heading_bug_fixes_def heading_chores_def
      title_features_def title_bug_fixes_def title_chores_def u_def cp_def)

lemma bullet_printable:
  "printable links story \<Longrightarrow> bullet links story = Inr (spec_bullet links story)"
  by (auto simp: printable_def bullet_def spec_bullet_def split: option.splits pyval.splits)

lemma append_bullets_printable:
  "\<forall>story \<in> set bucket. printable links story \<Longrightarrow>
     append_bullets links bucket lines = Inr (lines @ map (spec_bullet links) bucket)"
  by (induction bucket arbitrary: lines) (simp_all add: bullet_printable)

lemma section_block_printable:
  assumes "categories key = Some bucket" and "\<forall>story \<in> set bucket. printable links story"
  shows "section_block categories key heading links lines
           = Inr (lines @ spec_section heading links bucket)"
  using assms by (simp add: section_block_def spec_section_def append_bullets_printable)

lemma generate_release_notes_sections:
  assumes "categories (u ''feature'') = Some feature" and "categories (u ''bug'') = Some bug"
    and "categories (u ''chore'') = Some chore"
    and "\<forall>story \<in> set (feature @ bug @ chore). printable links story"
  shows "generate_release_notes categories links = Inr (spec_render feature bug chore links)"
proof -
  from assms(4) have p: "\<forall>story \<in> set feature. printable links story"
    "\<forall>story \<in> set bug. printable links story" "\<forall>story \<in> set chore. printable links story"
    by simp_all
  have "generate_release_notes categories links
      = Inr (join [0x0A] (spec_section heading_features links feature
               @ spec_section heading_bug_fixes links bug
               @ spec_section heading_chores links chore))"
    by (simp add: generate_release_notes_def
        section_block_printable [of categories "u ''feature''" feature links, OF assms(1) p(1)]
        section_block_printable [of categories "u ''bug''" bug links, OF assms(2) p(2)]
        section_block_printable [of categories "u ''chore''" chore links, OF assms(3) p(3)])
  then show ?thesis
    by (simp only: spec_render_def heading_titles)
qed

lemma join_Cons: "join sep (x # xs) = x @ concat (map (\<lambda>y. sep @ y) xs)"
  by (induction xs arbitrary: x) simp_all

lemma join_line_feed_heading:
  "join sep (xs @ (sep @ t) # ys) = join sep (xs @ [] # t # ys)"
  by (cases xs) (simp_all add: join_Cons)




section \<open>The line feeds between the sections\<close>

lemma join_opened_section:
  "join [0x0A] (xs @ spec_section ([0x0A] @ t) links bucket @ ys)
     = join [0x0A] (xs @ spec_opened_section [[], t] links bucket @ ys)"
proof (cases "bucket = []")
  case True
  then show ?thesis by (simp add: spec_section_def spec_opened_section_def)
next
  case False
  then show ?thesis
    using join_line_feed_heading [of "[0x0A]" xs t "map (spec_bullet links) bucket @ ys"]
    by (simp add: spec_section_def spec_opened_section_def)
qed

lemma crash_on_load_notes:
  "generate_release_notes crash_on_load False
     = Inr ([0x0A] @ title_bug_fixes @ [0x0A] @ u ''- Crash on load'')"
  by (simp add: crash_on_load_def generate_release_notes_def section_block_def bullet_def
      heading_titles u_def cp_def)

text \<open>
  C3, as the code has it. The headings of Bug Fixes and of Chores are written with a line
  feed before them whenever they are emitted, and the heading of Features never is: in
  the notes an empty line stands before each of the two, also when nothing precedes it.
  For the dictionary with the one bug \<open>Crash on load\<close> the notes are an empty line, the
  heading of Bug Fixes and the bullet.
\<close>

theorem generate_release_notes_line_feeds:
  assumes "categories (u ''feature'') = Some feature" and "categories (u ''bug'') = Some bug"
    and "categories (u ''chore'') = Some chore"
    and "\<forall>story \<in> set (feature @ bug @ chore). printable links story"
  shows "generate_release_notes categories links =
           Inr (join [0x0A]
                  (spec_opened_section [title_features] links feature
                   @ spec_opened_section [[], title_bug_fixes] links bug
                   @ spec_opened_section [[], title_chores] links chore))
    \<and> generate_release_notes crash_on_load False
        = Inr (join [0x0A] [[], title_bug_fixes, u ''- Crash on load''])"
proof -
  let ?F = "spec_opened_section [title_features] links feature"
  have F: "spec_section title_features links feature = ?F"
    by (simp add: spec_section_def spec_opened_section_def)
  have "spec_render feature bug chore links
      = join [0x0A] (?F @ spec_section ([0x0A] @ title_bug_fixes) links bug
          @ spec_section ([0x0A] @ title_chores) links chore)"
    by (simp only: spec_render_def F)
  also have "\<dots> = join [0x0A] (?F @ spec_opened_section [[], title_bug_fixes] links bug
          @ spec_section ([0x0A] @ title_chores) links chore)"
    by (rule join_opened_section)
  also have "\<dots> = join [0x0A] ((?F @ spec_opened_section [[], title_bug_fixes] links bug)
          @ spec_section ([0x0A] @ title_chores) links chore @ [])"
    by simp
  also have "\<dots> = join [0x0A] ((?F @ spec_opened_section [[], title_bug_fixes] links bug)
          @ spec_opened_section [[], title_chores] links chore @ [])"
    by (rule join_opened_section)
  finally have 1: "spec_render feature bug chore links
      = join [0x0A] (?F @ spec_opened_section [[], title_bug_fixes] links bug
          @ spec_opened_section [[], title_chores] links chore)"
    by simp
  have 2: "generate_release_notes crash_on_load False
        = Inr (join [0x0A] [[], title_bug_fixes, u ''- Crash on load''])"
    by (simp add: crash_on_load_notes)
  from generate_release_notes_sections [OF assms] 1 2 show ?thesis by simp
qed

theorem generate_release_notes_line_feeds_witness:
  "crash_on_load (u ''bug'') = Some [[u ''name'' \<mapsto> Str (u ''Crash on load'')]]
   \<and> generate_release_notes crash_on_load False
       = Inr ([0x0A] @ title_bug_fixes @ [0x0A] @ u ''- Crash on load'')
   \<and> generate_release_notes login_and_cleanup False
       = Inr (title_features @ [0x0A] @ u ''- Add login'' @ [0x0A]
              @ [0x0A] @ title_chores @ [0x0A] @ u ''- Clean up'')"
proof -
  let ?b = "[[u ''name'' \<mapsto> Str (u ''Crash on load'')]]"
  let ?f = "[[u ''id'' \<mapsto> Str (u ''SC-42''), u ''name'' \<mapsto> Str (u ''Add login''),
              u ''description'' \<mapsto> Str []]]"
  let ?c = "[[u ''id'' \<mapsto> Str (u ''SC-7''), u ''name'' \<mapsto> Str (u ''Clean up''),
              u ''description'' \<mapsto> Str []]]"
  have f: "crash_on_load (u ''feature'') = Some []"
    and b: "crash_on_load (u ''bug'') = Some ?b"
    and c: "crash_on_load (u ''chore'') = Some []"
    by (simp_all add: crash_on_load_def u_def cp_def)
  have p: "\<forall>story \<in> set ([] @ ?b @ []). printable False story"
    by (simp add: printable_def u_def cp_def)
  have j: "join [0x0A]
             (spec_opened_section [title_features] False []
              @ spec_opened_section [[], title_bug_fixes] False ?b
              @ spec_opened_section [[], title_chores] False [])
           = [0x0A] @ title_bug_fixes @ [0x0A] @ u ''- Crash on load''"
    by (simp add: spec_opened_section_def spec_bullet_def u_def cp_def)
  from generate_release_notes_line_feeds [OF f b c p, THEN conjunct1]
  have 1: "generate_release_notes crash_on_load False
       = Inr ([0x0A] @ title_bug_fixes @ [0x0A] @ u ''- Crash on load'')"
    by (simp only: j)
  have f': "login_and_cleanup (u ''feature'') = Some ?f"
    and b': "login_and_cleanup (u ''bug'') = Some []"
    and c': "login_and_cleanup (u ''chore'') = Some ?c"
    by (simp_all add: login_and_cleanup_def u_def cp_def)
  have p': "\<forall>story \<in> set (?f @ [] @ ?c). printable False story"
    by (simp add: printable_def u_def cp_def)
  have j': "join [0x0A]
             (spec_opened_section [title_features] False ?f
              @ spec_opened_section [[], title_bug_fixes] False []
              @ spec_opened_section [[], title_chores] False ?c)
           = title_features @ [0x0A] @ u ''- Add login'' @ [0x0A]
              @ [0x0A] @ title_chores @ [0x0A] @ u ''- Clean up''"
    by (simp add: spec_opened_section_def spec_bullet_def u_def cp_def)
  from generate_release_notes_line_feeds [OF f' b' c' p', THEN conjunct1]
  have 2: "generate_release_notes login_and_cleanup False
       = Inr (title_features @ [0x0A] @ u ''- Add login'' @ [0x0A]
              @ [0x0A] @ title_chores @ [0x0A] @ u ''- Clean up'')"
    by (simp only: j')
  from b 1 2 show ?thesis by (intro conjI)
qed

text \<open>C3, as it is stated, fails on that dictionary: the notes do not begin with the
  heading of Bug Fixes, a line feed stands before it.\<close>

theorem generate_release_notes_leading_line_feed:
  "generate_release_notes crash_on_load False
     = Inr ([0x0A] @ title_bug_fixes @ [0x0A] @ u ''- Crash on load'')
   \<and> generate_release_notes crash_on_load False
     \<noteq> Inr (title_bug_fixes @ [0x0A] @ u ''- Crash on load'')"
  by (simp add: crash_on_load_def generate_release_notes_def section_block_def bullet_def
      heading_titles title_bug_fixes_def u_def cp_def)

section \<open>\<open>categorize_stories\<close>\<close>

lemma categorize_loop_Cons:
  "categorize_loop get (sid # rest) cats =
     (case fetched_type get sid of
        None \<Rightarrow> (fst (get_story_details get sid), Inl AttributeError)
      | Some k \<Rightarrow>
          (case categorize_loop get rest (add_story cats k (fetched_entry get sid)) of
             (l2, r) \<Rightarrow> (fst (get_story_details get sid) @ l2, r)))"
  by (cases "get_story_details get sid")
     (auto simp: fetched_type_def fetched_entry_def add_story_def Let_def
           split: story.splits pyval.splits option.splits prod.splits)

lemma dom_add_story: "dom (add_story cats k e) = dom cats"
  by (auto simp: add_story_def split: option.splits)

lemma add_story_other: "k' \<noteq> k \<Longrightarrow> add_story cats k e k' = cats k'"
  by (simp add: add_story_def split: option.splits)

lemma add_story_same: "cats k = Some bucket \<Longrightarrow> add_story cats k e k = Some (bucket @ [e])"
  by (simp add: add_story_def)

lemma add_story_absent: "cats k = None \<Longrightarrow> add_story cats k e = cats"
  by (simp add: add_story_def)

lemma three_keys:
  "dom [u ''feature'' \<mapsto> [], u ''bug'' \<mapsto> [], u ''chore'' \<mapsto> ([] :: entry list)]
     = {u ''feature'', u ''bug'', u ''chore''}"
  "k \<in> {u ''feature'', u ''bug'', u ''chore''} \<Longrightarrow>
     [u ''feature'' \<mapsto> [], u ''bug'' \<mapsto> [], u ''chore'' \<mapsto> ([] :: entry list)] k = Some []"
  "[] \<notin> {u ''feature'', u ''bug'', u ''chore''}"
  "[u ''feature'' \<mapsto> [], u ''bug'' \<mapsto> [], u ''chore'' \<mapsto> ([] :: entry list)] [] = None"
  by (auto simp: u_def)

text \<open>What the loop adds to a bucket comes from the stories of the list whose type is the key
  of the bucket.\<close>

lemma categorize_loop_buckets:
  "categorize_loop get ids cats0 = (l, Inr cats) \<Longrightarrow>
     dom cats = dom cats0
     \<and> (\<forall>k bucket0. cats0 k = Some bucket0 \<longrightarrow>
          (\<exists>new. cats k = Some (bucket0 @ new)
             \<and> (\<forall>e \<in> set new. \<exists>sid \<in> set ids.
                   fetched_type get sid = Some k \<and> e = fetched_entry get sid)))"
proof (induction ids arbitrary: cats0 l)
  case Nil
  then show ?case by simp
next
  case (Cons sid rest)
  from Cons.prems [unfolded categorize_loop_Cons]
  obtain k where k: "fetched_type get sid = Some k"
    by (cases "fetched_type get sid") simp_all
  let ?c1 = "add_story cats0 k (fetched_entry get sid)"
  from Cons.prems [unfolded categorize_loop_Cons] k
  obtain l2 where r: "categorize_loop get rest ?c1 = (l2, Inr cats)"
    by (cases "categorize_loop get rest ?c1") simp
  note ih = Cons.IH [OF r]
  from ih have d: "dom cats = dom cats0" by (simp add: dom_add_story)
  have "\<exists>new. cats k' = Some (bucket0 @ new)
             \<and> (\<forall>e \<in> set new. \<exists>s \<in> set (sid # rest).
                   fetched_type get s = Some k' \<and> e = fetched_entry get s)"
    if b0: "cats0 k' = Some bucket0" for k' bucket0
  proof (cases "k' = k")
    case True
    with b0 have "?c1 k' = Some (bucket0 @ [fetched_entry get sid])"
      by (simp add: add_story_same)
    with ih obtain new where n: "cats k' = Some ((bucket0 @ [fetched_entry get sid]) @ new)"
      and m: "\<forall>e \<in> set new. \<exists>s \<in> set rest.
                   fetched_type get s = Some k' \<and> e = fetched_entry get s"
      by blast
    from n have "cats k' = Some (bucket0 @ (fetched_entry get sid # new))" by simp
    moreover from m k True
    have "\<forall>e \<in> set (fetched_entry get sid # new). \<exists>s \<in> set (sid # rest).
                   fetched_type get s = Some k' \<and> e = fetched_entry get s"
      by auto
    ultimately show ?thesis by blast
  next
    case False
    with b0 have "?c1 k' = Some bucket0" by (simp add: add_story_other)
    with ih obtain new where n: "cats k' = Some (bucket0 @ new)"
      and m: "\<forall>e \<in> set new. \<exists>s \<in> set rest.
                   fetched_type get s = Some k' \<and> e = fetched_entry get s"
      by blast
    from m have "\<forall>e \<in> set new. \<exists>s \<in> set (sid # rest).
                   fetched_type get s = Some k' \<and> e = fetched_entry get s"
      by auto
    with n show ?thesis by blast
  qed
  with d show ?case by blast
qed

lemma categorize_loop_total:
  "\<forall>sid \<in> set ids. fetched_type get sid \<noteq> None \<Longrightarrow>
     \<exists>l cats. categorize_loop get ids cats0 = (l, Inr cats)"
proof (induction ids arbitrary: cats0)
  case Nil
  then show ?case by simp
next
  case (Cons sid rest)
  then obtain k where k: "fetched_type get sid = Some k" by auto
  from Cons obtain l cats where
    "categorize_loop get rest (add_story cats0 k (fetched_entry get sid)) = (l, Inr cats)"
    by fastforce
  with k show ?case unfolding categorize_loop_Cons by simp
qed

lemma fetched_entry_id:
  "fetched_type get sid = Some k \<Longrightarrow> fetched_entry get sid (u ''id'') = Some (Str sid)"
  by (auto simp: fetched_type_def fetched_entry_def u_def cp_def split: story.splits)

lemma categorize_loop_keeps:
  "categorize_loop get ids cats0 = (l, Inr cats) \<Longrightarrow> sid \<in> set ids \<Longrightarrow>
     fetched_type get sid = Some k \<Longrightarrow> cats0 k = Some bucket0 \<Longrightarrow>
     \<exists>bucket. cats k = Some bucket \<and> fetched_entry get sid \<in> set bucket"
proof (induction ids arbitrary: cats0 l bucket0)
  case Nil
  then show ?case by simp
next
  case (Cons s rest)
  from Cons.prems(1) [unfolded categorize_loop_Cons]
  obtain k' where k': "fetched_type get s = Some k'"
    by (cases "fetched_type get s") simp_all
  let ?c1 = "add_story cats0 k' (fetched_entry get s)"
  from Cons.prems(1) [unfolded categorize_loop_Cons] k'
  obtain l2 where r: "categorize_loop get rest ?c1 = (l2, Inr cats)"
    by (cases "categorize_loop get rest ?c1") simp
  show ?case
  proof (cases "sid = s")
    case True
    with k' Cons.prems(3) have "k' = k" by simp
    with Cons.prems(4) True have "?c1 k = Some (bucket0 @ [fetched_entry get sid])"
      by (simp add: add_story_same)
    with categorize_loop_buckets [OF r] obtain new where
      "cats k = Some ((bucket0 @ [fetched_entry get sid]) @ new)"
      by blast
    then show ?thesis by simp
  next
    case False
    with Cons.prems(2) have m: "sid \<in> set rest" by simp
    from Cons.prems(4) obtain b1 where "?c1 k = Some b1"
      by (cases "k = k'") (simp_all add: add_story_same add_story_other)
    from Cons.IH [OF r m Cons.prems(3) this] show ?thesis .
  qed
qed

lemma categorize_stories_entries:
  assumes "categorize_stories get ids = (l, Inr cats)" and "cats k = Some bucket"
    and "e \<in> set bucket"
  shows "k \<in> {u ''feature'', u ''bug'', u ''chore''}
         \<and> (\<exists>sid \<in> set ids. fetched_type get sid = Some k \<and> e = fetched_entry get sid)"
proof -
  let ?init = "[u ''feature'' \<mapsto> [], u ''bug'' \<mapsto> [], u ''chore'' \<mapsto> ([] :: entry list)]"
  from assms(1) have loop: "categorize_loop get ids ?init = (l, Inr cats)"
    by (simp add: categorize_stories_def)
  note inv = categorize_loop_buckets [OF loop]
  from inv have "dom cats = dom ?init" by blast
  then have "dom cats = {u ''feature'', u ''bug'', u ''chore''}"
    by (simp only: three_keys(1))
  with assms(2) have k: "k \<in> {u ''feature'', u ''bug'', u ''chore''}" by blast
  then have "?init k = Some []" by (rule three_keys(2))
  with inv obtain new where "cats k = Some ([] @ new)"
    and "\<forall>e \<in> set new. \<exists>sid \<in> set ids.
           fetched_type get sid = Some k \<and> e = fetched_entry get sid"
    by blast
  with assms(2,3) k show ?thesis by simp
qed

text \<open>
  C8. \<open>categorize_stories\<close> returns whenever every story read is a dictionary whose
  type is a \<open>str\<close> or is missing; the dictionary it returns has exactly the keys
  \<open>feature\<close>, \<open>bug\<close> and \<open>chore\<close>; every entry of a bucket is the entry of a story
  of the list whose type in lower case is the key of the bucket, every such story is in
  its bucket, and a story of any other type is in no bucket.
\<close>

theorem categorize_stories_three_keys:
  "((\<forall>sid \<in> set ids. fetched_type get sid \<noteq> None)
      \<longrightarrow> (\<exists>l cats. categorize_stories get ids = (l, Inr cats)))
   \<and> (categorize_stories get ids = (l, Inr cats) \<longrightarrow>
        dom cats = {u ''feature'', u ''bug'', u ''chore''}
        \<and> (\<forall>k bucket. cats k = Some bucket \<longrightarrow>
              (\<forall>e \<in> set bucket. \<exists>sid \<in> set ids.
                  fetched_type get sid = Some k \<and> e = fetched_entry get sid))
        \<and> (\<forall>sid \<in> set ids. \<forall>k \<in> {u ''feature'', u ''bug'', u ''chore''}.
              fetched_type get sid = Some k \<longrightarrow>
                (\<exists>bucket. cats k = Some bucket \<and> fetched_entry get sid \<in> set bucket))
        \<and> (\<forall>sid t. fetched_type get sid = Some t
                    \<and> t \<notin> {u ''feature'', u ''bug'', u ''chore''} \<longrightarrow>
              (\<forall>k bucket. cats k = Some bucket \<longrightarrow>
                  (\<forall>e \<in> set bucket. e (u ''id'') \<noteq> Some (Str sid)))))"
proof (intro conjI impI)
  assume "\<forall>sid \<in> set ids. fetched_type get sid \<noteq> None"
  then show "\<exists>l cats. categorize_stories get ids = (l, Inr cats)"
    unfolding categorize_stories_def by (rule categorize_loop_total)
next
  let ?init = "[u ''feature'' \<mapsto> [], u ''bug'' \<mapsto> [], u ''chore'' \<mapsto> ([] :: entry list)]"
  assume c: "categorize_stories get ids = (l, Inr cats)"
  then have loop: "categorize_loop get ids ?init = (l, Inr cats)"
    by (simp add: categorize_stories_def)
  note inv = categorize_loop_buckets [OF loop]
  from inv have "dom cats = dom ?init" by blast
  then show d: "dom cats = {u ''feature'', u ''bug'', u ''chore''}"
    by (simp only: three_keys(1))
  have from_ids: "\<exists>sid \<in> set ids. fetched_type get sid = Some k \<and> e = fetched_entry get sid"
    if b: "cats k = Some bucket" and e: "e \<in> set bucket" for k bucket e
    using categorize_stories_entries [OF c b e] by blast
  then show "\<forall>k bucket. cats k = Some bucket \<longrightarrow>
              (\<forall>e \<in> set bucket. \<exists>sid \<in> set ids.
                  fetched_type get sid = Some k \<and> e = fetched_entry get sid)"
    by blast
  show "\<forall>sid \<in> set ids. \<forall>k \<in> {u ''feature'', u ''bug'', u ''chore''}.
              fetched_type get sid = Some k \<longrightarrow>
                (\<exists>bucket. cats k = Some bucket \<and> fetched_entry get sid \<in> set bucket)"
  proof (intro ballI impI)
    fix sid k
    assume "sid \<in> set ids" and "k \<in> {u ''feature'', u ''bug'', u ''chore''}"
      and "fetched_type get sid = Some k"
    moreover from this(2) have "?init k = Some []" by (rule three_keys(2))
    ultimately show "\<exists>bucket. cats k = Some bucket \<and> fetched_entry get sid \<in> set bucket"
      using categorize_loop_keeps [OF loop] by blast
  qed
  show "\<forall>sid t. fetched_type get sid = Some t
                \<and> t \<notin> {u ''feature'', u ''bug'', u ''chore''} \<longrightarrow>
              (\<forall>k bucket. cats k = Some bucket \<longrightarrow>
                  (\<forall>e \<in> set bucket. e (u ''id'') \<noteq> Some (Str sid)))"
  proof (intro allI impI ballI)
    fix sid t k bucket e
    assume t: "fetched_type get sid = Some t \<and> t \<notin> {u ''feature'', u ''bug'', u ''chore''}"
      and b: "cats k = Some bucket" and e: "e \<in> set bucket"
    from from_ids [OF b e] obtain s where s: "fetched_type get s = Some k"
      and es: "e = fetched_entry get s"
      by blast
    from b d have kk: "k \<in> {u ''feature'', u ''bug'', u ''chore''}" by blast
    show "e (u ''id'') \<noteq> Some (Str sid)"
    proof
      assume "e (u ''id'') = Some (Str sid)"
      with es fetched_entry_id [OF s] have "s = sid" by simp
      with s t kk show False by auto
    qed
  qed
qed

theorem categorize_stories_three_keys_witness:
  "fetched_type mixed_api (u ''SC-1'') = Some (u ''feature'')
   \<and> fetched_type mixed_api (u ''SC-2'') = Some (u ''epic'')
   \<and> (\<exists>l cats bucket. categorize_stories mixed_api [u ''SC-1'', u ''SC-2''] = (l, Inr cats)
         \<and> dom cats = {u ''feature'', u ''bug'', u ''chore''}
         \<and> cats (u ''feature'') = Some bucket
         \<and> fetched_entry mixed_api (u ''SC-1'') \<in> set bucket
         \<and> Some (Str (u ''SC-2'')) \<notin> (\<lambda>e. e (u ''id'')) ` set bucket)"
proof -
  let ?ids = "[u ''SC-1'', u ''SC-2'']"
  have 1: "fetched_type mixed_api (u ''SC-1'') = Some (u ''feature'')"
    by (simp add: fetched_type_def get_story_details_def shortcut_api_url_def mixed_api_def
        dict_get_def lower_str_def lower_chr_def u_def cp_def)
  have 2: "fetched_type mixed_api (u ''SC-2'') = Some (u ''epic'')"
    by (simp add: fetched_type_def get_story_details_def shortcut_api_url_def mixed_api_def
        dict_get_def lower_str_def lower_chr_def u_def cp_def)
  from 1 2 have h: "\<forall>sid \<in> set ?ids. fetched_type mixed_api sid \<noteq> None" by simp
  from categorize_stories_three_keys [of ?ids mixed_api, THEN conjunct1, THEN mp, OF h]
  obtain l cats where c: "categorize_stories mixed_api ?ids = (l, Inr cats)"
    by (elim exE)
  note body = categorize_stories_three_keys [of ?ids mixed_api l cats, THEN conjunct2, THEN mp,
      OF c]
  note d = body [THEN conjunct1]
  note keeps = body [THEN conjunct2, THEN conjunct2, THEN conjunct1]
  note drops = body [THEN conjunct2, THEN conjunct2, THEN conjunct2]
  have m1: "u ''SC-1'' \<in> set ?ids" by simp
  have k1: "u ''feature'' \<in> {u ''feature'', u ''bug'', u ''chore''}" by simp
  from keeps [THEN bspec, OF m1, THEN bspec, OF k1, THEN mp, OF 1]
  obtain bucket where b: "cats (u ''feature'') = Some bucket"
    and f: "fetched_entry mixed_api (u ''SC-1'') \<in> set bucket"
    by (elim exE conjE)
  have n: "u ''epic'' \<notin> {u ''feature'', u ''bug'', u ''chore''}" by (simp add: u_def cp_def)
  from drops [THEN spec, THEN spec, THEN mp, OF conjI, OF 2 n, THEN spec, THEN spec, THEN mp,
      OF b]
  have "\<forall>e \<in> set bucket. e (u ''id'') \<noteq> Some (Str (u ''SC-2''))" .
  then have e: "Some (Str (u ''SC-2'')) \<notin> (\<lambda>e. e (u ''id'')) ` set bucket"
    by (auto simp: image_iff)
  from c d b f e have "categorize_stories mixed_api [u ''SC-1'', u ''SC-2''] = (l, Inr cats)
         \<and> dom cats = {u ''feature'', u ''bug'', u ''chore''}
         \<and> cats (u ''feature'') = Some bucket
         \<and> fetched_entry mixed_api (u ''SC-1'') \<in> set bucket
         \<and> Some (Str (u ''SC-2'')) \<notin> (\<lambda>e. e (u ''id'')) ` set bucket"
    by (intro conjI)
  then have "\<exists>l cats bucket.
           categorize_stories mixed_api [u ''SC-1'', u ''SC-2''] = (l, Inr cats)
         \<and> dom cats = {u ''feature'', u ''bug'', u ''chore''}
         \<and> cats (u ''feature'') = Some bucket
         \<and> fetched_entry mixed_api (u ''SC-1'') \<in> set bucket
         \<and> Some (Str (u ''SC-2'')) \<notin> (\<lambda>e. e (u ''id'')) ` set bucket"
    by (intro exI)
  with 1 2 show ?thesis by (intro conjI)
qed

section \<open>Fetches that fail\<close>

lemma get_story_details_failed:
  assumes "request_failed get sid"
  shows "get_story_details get sid
           = ([Fetching_story_details sid, Error_fetching_story sid], Dict Map.empty)"
  using assms
  by (auto simp: request_failed_def story_url_def get_story_details_def
           split: http_outcome.splits)

text \<open>A response whose status is not from 400 to 599 is no failure: its body is the
  story, whatever the status is.\<close>

lemma get_story_details_answered:
  assumes "get (story_url sid) = Response status_code body"
    and "\<not> (400 \<le> status_code \<and> status_code < 600)"
  shows "\<not> request_failed get sid
    \<and> get_story_details get sid = ([Fetching_story_details sid], body)"
  using assms
  by (simp add: request_failed_def story_url_def get_story_details_def)

lemma fetched_type_failed: "request_failed get sid \<Longrightarrow> fetched_type get sid = Some []"
  by (simp add: fetched_type_def get_story_details_failed dict_get_def lower_str_def)

lemma categorize_loop_failed:
  assumes "request_failed get sid" and "cats [] = None"
  shows "categorize_loop get (sid # rest) cats =
           (case categorize_loop get rest cats of
              (l2, r) \<Rightarrow> ([Fetching_story_details sid, Error_fetching_story sid] @ l2, r))"
  unfolding categorize_loop_Cons
  using assms
  by (simp add: fetched_type_failed get_story_details_failed add_story_absent)

lemma categorize_loop_all_failed:
  assumes "\<forall>sid \<in> set ids. request_failed get sid" and "cats [] = None"
  shows "snd (categorize_loop get ids cats) = Inr cats"
  using assms
proof (induction ids)
  case Nil
  then show ?case by simp
next
  case (Cons sid rest)
  then have f: "request_failed get sid"
    and ih: "snd (categorize_loop get rest cats) = Inr cats"
    by simp_all
  obtain l2 r where lr: "categorize_loop get rest cats = (l2, r)"
    by (cases "categorize_loop get rest cats")
  with ih have "r = Inr cats" by simp
  with lr show ?case
    unfolding categorize_loop_failed [of get sid cats rest, OF f Cons.prems(2)]
    by simp
qed

text \<open>
  C7, as the code has it. When the fetch of a story fails, by an exception of
  \<open>requests\<close> or by a status code from 400 to 599, \<open>get_story_details\<close> logs an error
  and returns the empty dictionary; the loop of \<open>categorize_stories\<close> goes on with the
  categories as they were, the story is in no bucket of the result, and when every fetch
  fails the result is the three empty buckets: nothing is raised. A response with any
  other status code is no failure: \<open>get_story_details\<close> logs the fetch only and returns
  the body of the response as the story.
\<close>

theorem get_story_details_failure_is_skipped:
  "(request_failed get sid \<longrightarrow>
      get_story_details get sid
        = ([Fetching_story_details sid, Error_fetching_story sid], Dict Map.empty)
      \<and> level (Error_fetching_story sid) = ERROR
      \<and> (cats [] = None \<longrightarrow>
           categorize_loop get (sid # rest) cats =
             (case categorize_loop get rest cats of
                (l2, r) \<Rightarrow> ([Fetching_story_details sid, Error_fetching_story sid] @ l2, r)))
      \<and> (categorize_stories get ids = (l, Inr result) \<longrightarrow>
           (\<forall>k bucket. result k = Some bucket \<longrightarrow>
              (\<forall>e \<in> set bucket. e (u ''id'') \<noteq> Some (Str sid)))))
   \<and> ((\<forall>s \<in> set ids. request_failed get s) \<longrightarrow>
         snd (categorize_stories get ids)
           = Inr [u ''feature'' \<mapsto> [], u ''bug'' \<mapsto> [], u ''chore'' \<mapsto> []])
   \<and> (get (story_url sid) = Response status_code body
        \<and> \<not> (400 \<le> status_code \<and> status_code < 600) \<longrightarrow>
         \<not> request_failed get sid
         \<and> get_story_details get sid = ([Fetching_story_details sid], body)
         \<and> level (Fetching_story_details sid) = INFO)"
proof (intro conjI impI allI ballI)
  assume f: "request_failed get sid"
  then show "get_story_details get sid
           = ([Fetching_story_details sid, Error_fetching_story sid], Dict Map.empty)"
    by (rule get_story_details_failed)
  show "level (Error_fetching_story sid) = ERROR" by simp
  {
    assume "cats [] = None"
    with f show "categorize_loop get (sid # rest) cats =
           (case categorize_loop get rest cats of
              (l2, r) \<Rightarrow> ([Fetching_story_details sid, Error_fetching_story sid] @ l2, r))"
      by (rule categorize_loop_failed)
  }
  {
    fix k bucket e
    assume c: "categorize_stories get ids = (l, Inr result)" and b: "result k = Some bucket"
      and e: "e \<in> set bucket"
    from categorize_stories_entries [OF c b e] obtain s where
      k: "k \<in> {u ''feature'', u ''bug'', u ''chore''}" and s: "fetched_type get s = Some k"
      and es: "e = fetched_entry get s"
      by blast
    show "e (u ''id'') \<noteq> Some (Str sid)"
    proof
      assume "e (u ''id'') = Some (Str sid)"
      with es fetched_entry_id [OF s] have "s = sid" by simp
      with s fetched_type_failed [OF f] have "k = []" by simp
      with k three_keys(3) show False by simp
    qed
  }
next
  assume "\<forall>s \<in> set ids. request_failed get s"
  then show "snd (categorize_stories get ids)
           = Inr [u ''feature'' \<mapsto> [], u ''bug'' \<mapsto> [], u ''chore'' \<mapsto> []]"
    unfolding categorize_stories_def
    by (rule categorize_loop_all_failed) (rule three_keys(4))
next
  assume a: "get (story_url sid) = Response status_code body
      \<and> \<not> (400 \<le> status_code \<and> status_code < 600)"
  then have g: "get (story_url sid) = Response status_code body"
    and n: "\<not> (400 \<le> status_code \<and> status_code < 600)"
    by simp_all
  from get_story_details_answered [of get sid status_code body, OF g n]
  show "\<not> request_failed get sid"
    and "get_story_details get sid = ([Fetching_story_details sid], body)"
    by simp_all
  show "level (Fetching_story_details sid) = INFO" by simp
qed

theorem get_story_details_failure_is_skipped_witness:
  "request_failed failing_api (u ''SC-1'') \<and> request_failed failing_api (u ''SC-2'')
   \<and> get_story_details failing_api (u ''SC-2'')
       = ([Fetching_story_details (u ''SC-2''), Error_fetching_story (u ''SC-2'')],
          Dict Map.empty)
   \<and> categorize_loop failing_api [u ''SC-2'']
        [u ''feature'' \<mapsto> [], u ''bug'' \<mapsto> [], u ''chore'' \<mapsto> []]
       = ([Fetching_story_details (u ''SC-2''), Error_fetching_story (u ''SC-2'')],
          Inr [u ''feature'' \<mapsto> [], u ''bug'' \<mapsto> [], u ''chore'' \<mapsto> []])
   \<and> snd (categorize_stories failing_api [u ''SC-1'', u ''SC-2''])
       = Inr [u ''feature'' \<mapsto> [], u ''bug'' \<mapsto> [], u ''chore'' \<mapsto> []]
   \<and> mixed_api (story_url (u ''SC-1''))
       = Response 200 (Dict [u ''story_type'' \<mapsto> Str (u ''Feature''),
                             u ''name'' \<mapsto> Str (u ''Add login'')])
   \<and> \<not> request_failed mixed_api (u ''SC-1'')
   \<and> get_story_details mixed_api (u ''SC-1'')
       = ([Fetching_story_details (u ''SC-1'')],
          Dict [u ''story_type'' \<mapsto> Str (u ''Feature''), u ''name'' \<mapsto> Str (u ''Add login'')])"
proof -
  let ?init = "[u ''feature'' \<mapsto> [], u ''bug'' \<mapsto> [], u ''chore'' \<mapsto> ([] :: entry list)]"
  let ?body = "Dict [u ''story_type'' \<mapsto> Str (u ''Feature''),
                     u ''name'' \<mapsto> Str (u ''Add login'')]"
  have r1: "request_failed failing_api (u ''SC-1'')"
    by (simp add: request_failed_def story_url_def shortcut_api_url_def failing_api_def
        lower_str_def lower_chr_def u_def cp_def)
  have r2: "request_failed failing_api (u ''SC-2'')"
    by (simp add: request_failed_def story_url_def shortcut_api_url_def failing_api_def
        lower_str_def lower_chr_def u_def cp_def)
  note inst = get_story_details_failure_is_skipped [where get = failing_api
      and sid = "u ''SC-2''" and cats = ?init and rest = "[]"
      and ids = "[u ''SC-1'', u ''SC-2'']"]
  note failed = inst [THEN conjunct1, THEN mp, OF r2]
  note g = failed [THEN conjunct1]
  have "categorize_loop failing_api [u ''SC-2''] ?init =
      (case categorize_loop failing_api [] ?init of
         (l2, r) \<Rightarrow> ([Fetching_story_details (u ''SC-2''),
                      Error_fetching_story (u ''SC-2'')] @ l2, r))"
    by (rule failed [THEN conjunct2, THEN conjunct2, THEN conjunct1, THEN mp,
          OF three_keys(4)])
  then have s: "categorize_loop failing_api [u ''SC-2''] ?init
       = ([Fetching_story_details (u ''SC-2''), Error_fetching_story (u ''SC-2'')],
          Inr ?init)"
    by simp
  from r1 r2 have a: "\<forall>s \<in> set [u ''SC-1'', u ''SC-2'']. request_failed failing_api s"
    by simp
  note c = inst [THEN conjunct2, THEN conjunct1, THEN mp, OF a]
  have m: "mixed_api (story_url (u ''SC-1'')) = Response 200 ?body"
    by (simp add: story_url_def shortcut_api_url_def mixed_api_def lower_str_def lower_chr_def
        u_def cp_def)
  have "mixed_api (story_url (u ''SC-1'')) = Response 200 ?body
      \<and> \<not> (400 \<le> (200 :: nat) \<and> (200 :: nat) < 600)"
    using m by simp
  note answered = get_story_details_failure_is_skipped [where get = mixed_api
      and sid = "u ''SC-1''" and status_code = 200 and body = ?body,
      THEN conjunct2, THEN conjunct2, THEN mp, OF this]
  note n = answered [THEN conjunct1]
  note b = answered [THEN conjunct2, THEN conjunct1]
  from r1 r2 g s c m n b show ?thesis by (intro conjI)
qed

text \<open>C7, as it is stated, fails for a status code that is neither 2xx nor an error to
  \<open>raise_for_status\<close>: with the status 300 the story of the body is returned, no error
  is logged, and the story goes into its bucket.\<close>

theorem get_story_details_status_300:
  "get_story_details redirecting_api (u ''SC-1'')
     = ([Fetching_story_details (u ''SC-1'')],
        Dict [u ''story_type'' \<mapsto> Str (u ''feature''), u ''name'' \<mapsto> Str (u ''Add login'')])
   \<and> snd (get_story_details redirecting_api (u ''SC-1'')) \<noteq> Dict Map.empty
   \<and> (case snd (categorize_stories redirecting_api [u ''SC-1'']) of
         Inl err \<Rightarrow> None
       | Inr cats \<Rightarrow> cats (u ''feature''))
      = Some [[u ''id'' \<mapsto> Str (u ''SC-1''), u ''name'' \<mapsto> Str (u ''Add login''),
               u ''description'' \<mapsto> Str []]]"
  by (simp add: get_story_details_def redirecting_api_def categorize_stories_def dict_get_def
      lower_str_def lower_chr_def u_def cp_def)

end
